theory Spec2Isabelle
  imports Main "HOL-Library.Word" "HOL-Library.Sublist"
begin

unbundle bit_operations_syntax

section \<open>Data model\<close>

text \<open>
  A shallow embedding of the DNS server core: the dispatcher of
  \<^verbatim>\<open>dnsserver/server.go\<close> (\<^verbatim>\<open>ServeDNS\<close>, \<^verbatim>\<open>DefaultErrorFunc\<close>,
  \<^verbatim>\<open>RcodeNoClientWrite\<close>), the connection pools that share its file, and the
  proxy client with its wire framing (\<^verbatim>\<open>Client.ServeDNS\<close>, \<^verbatim>\<open>Exchange\<close>,
  \<^verbatim>\<open>exchange\<close>, \<^verbatim>\<open>ReadMsg\<close>, \<^verbatim>\<open>readMsgHeader\<close>, \<^verbatim>\<open>tcpMsgLen\<close>,
  \<^verbatim>\<open>tcpRead\<close>, \<^verbatim>\<open>Read\<close>, \<^verbatim>\<open>WriteMsg\<close>, \<^verbatim>\<open>Write\<close>).

  Go strings are byte sequences: a name is a \<^typ>\<open>string\<close>. Wire data is a list of
  8-bit words. Lengths are \<^typ>\<open>nat\<close>; the 16-bit fields of a message are
  \<^typ>\<open>16 word\<close>. A Go panic is the value \<open>Panic\<close>, with the value the
  panic was raised with (which may be nil); a call that does not return, because
  it runs forever or ends the process with a fatal error, is \<open>None\<close> of an
  option. Clocks, deadlines, metrics and logging are effects the
  properties below do not read, and they are left out.
\<close>

type_synonym byte = "8 word"

datatype panic_value = NilValue | Value string

datatype 'a go = Panic panic_value | Ret 'a

text \<open>The values of the run-time panics the code can raise.\<close>

definition index_out_of_range :: panic_value where
  "index_out_of_range = Value ''index out of range''"

definition nil_dereference :: panic_value where
  "nil_dereference = Value ''invalid memory address or nil pointer dereference''"

text \<open>The fields of a DNS message that the code reads or writes.\<close>

record Question =
  Name :: string
  Qtype :: "16 word"
  Qclass :: "16 word"

text \<open>The EDNS0 pseudo-record of a message, when it has one (\<^verbatim>\<open>IsEdns0\<close>).\<close>

record OPT =
  UDPSize :: "16 word"
  Version :: "8 word"

record Msg =
  MsgId :: "16 word"
  Response :: bool
  Truncated :: bool
  Compress :: bool
  Rcode :: int
  Question :: "Question list"
  IsEdns0 :: "OPT option"

definition RcodeSuccess :: int where "RcodeSuccess = 0"
definition RcodeFormatError :: int where "RcodeFormatError = 1"
definition RcodeServerFailure :: int where "RcodeServerFailure = 2"
definition RcodeNameError :: int where "RcodeNameError = 3"
definition RcodeNotImplemented :: int where "RcodeNotImplemented = 4"
definition RcodeRefused :: int where "RcodeRefused = 5"
definition RcodeBadVers :: int where "RcodeBadVers = 16"

definition TypeDS :: "16 word" where "TypeDS = 43"

text \<open>
  \<^verbatim>\<open>Msg.SetRcode\<close> of the DNS library: a reply to \<open>r\<close> (same id, response bit,
  the first question copied when there is one) carrying \<open>rcode\<close>.
\<close>

definition SetRcode :: "Msg \<Rightarrow> int \<Rightarrow> Msg" where
  "SetRcode r rcode =
     \<lparr>MsgId = MsgId r, Response = True, Truncated = False, Compress = False,
      Rcode = rcode, Question = take 1 (Question r), IsEdns0 = None\<rparr>"

section \<open>The dispatcher (dnsserver/server.go)\<close>

text \<open>
  The response sink of one request: the transport it came over, the remote
  address, and the messages written to it so far, oldest first.
\<close>

record ResponseWriter =
  Proto :: string
  RemoteAddr :: string
  Sent :: "Msg list"

definition w_WriteMsg :: "ResponseWriter \<Rightarrow> Msg \<Rightarrow> ResponseWriter" where
  "w_WriteMsg w m = w\<lparr>Sent := Sent w @ [m]\<rparr>"

text \<open>
  A compiled chain: given the sink and the request it returns a response code
  or panics, and leaves the sink as its members wrote to it; or it does not
  return at all (\<open>None\<close>), as a member does that runs forever or overflows the
  stack. (The error it returns beside the code is discarded by every caller,
  \<^verbatim>\<open>rcode, _ :=\<close>.)
\<close>

type_synonym Handler = "ResponseWriter \<Rightarrow> Msg \<Rightarrow> (int go \<times> ResponseWriter) option"

record zone =
  stack :: Handler

text \<open>
  The state a dispatch threads: the sink, and the registry keys whose chain was
  invoked, in order (a ghost field: the code keeps no such list).
\<close>

record dispatch =
  W :: ResponseWriter
  Called :: "string list"

text \<open>
  Modelled from the spec: \<^verbatim>\<open>middleware.Edns0Version\<close> is not among the sources.
  "Reject immediately if the query's extension-mechanism version is unsupported;
  report and respond without further routing": a query whose EDNS0 record
  carries a version other than 0 gets a bad-version reply, any other query none.
\<close>

definition Edns0Version :: "Msg \<Rightarrow> Msg option" where
  "Edns0Version req =
     (case IsEdns0 req of
        None \<Rightarrow> None
      | Some opt \<Rightarrow> if Version opt = 0 then None else Some (SetRcode req RcodeBadVers))"

text \<open>
  \<^verbatim>\<open>DefaultErrorFunc\<close>. The parameter \<open>SizeAndDo\<close> stands for
  \<^verbatim>\<open>middleware.State.SizeAndDo\<close>, which is not among the sources: it is handed
  the request and the answer and returns the answer to send.
\<close>

definition DefaultErrorFunc ::
  "(Msg \<Rightarrow> Msg \<Rightarrow> Msg) \<Rightarrow> ResponseWriter \<Rightarrow> Msg \<Rightarrow> int \<Rightarrow> ResponseWriter" where
  "DefaultErrorFunc SizeAndDo w r rcode = w_WriteMsg w (SizeAndDo r (SetRcode r rcode))"

definition RcodeNoClientWrite :: "int \<Rightarrow> bool" where
  "RcodeNoClientWrite rcode =
     (rcode = RcodeServerFailure \<or> rcode = RcodeRefused \<or>
      rcode = RcodeFormatError \<or> rcode = RcodeNotImplemented)"

text \<open>
  The normalisation of lines 223-229: an upper-case ASCII letter gets bit
  \<open>0x20\<close> set, every other byte is copied.
\<close>

definition lower_byte :: "char \<Rightarrow> char" where
  "lower_byte c =
     (if 65 \<le> (of_char c :: nat) \<and> (of_char c :: nat) \<le> 90
      then char_of ((of_char c :: nat) OR 32) else c)"

text \<open>The scratch buffer \<^verbatim>\<open>b[:l]\<close> after the inner loop, for the offset \<open>off\<close>.\<close>

definition scratch :: "string \<Rightarrow> nat \<Rightarrow> string" where
  "scratch q off = map lower_byte (drop off q)"

text \<open>
  \<^verbatim>\<open>dns.NextLabel\<close> of the DNS library: the index of the start of the next
  label of \<open>s\<close> after \<open>offset\<close>, and whether the end of the name was reached. A
  dot right after an unpaired backslash does not end a label, and the last byte
  of the name is never looked at.
\<close>

function NextLabel_from :: "string \<Rightarrow> nat \<Rightarrow> bool \<Rightarrow> nat \<times> bool" where
  "NextLabel_from s i quote =
     (if i + 1 < length s then
        (if s ! i = CHR 0x5C then NextLabel_from s (i + 1) (\<not> quote)
         else if s ! i = CHR ''.'' then
           (if quote then NextLabel_from s (i + 1) False else (i + 1, False))
         else NextLabel_from s (i + 1) False)
      else (i + 1, True))"
  by pat_completeness auto
termination
  by (relation "measure (\<lambda>(s, i, quote). length s - i)") auto

definition NextLabel :: "string \<Rightarrow> nat \<Rightarrow> nat \<times> bool" where
  "NextLabel s offset = NextLabel_from s offset False"

text \<open>
  Lines 233-237 and 247-251: run the chain of the zone registered under \<open>k\<close>,
  answer for it when its code is one the chain does not write itself, return.
\<close>

definition invoke ::
  "(Msg \<Rightarrow> Msg \<Rightarrow> Msg) \<Rightarrow> string \<Rightarrow> zone \<Rightarrow> dispatch \<Rightarrow> Msg \<Rightarrow>
   (unit go \<times> dispatch) option" where
  "invoke SizeAndDo k h st r =
     (case stack h (W st) r of
        None \<Rightarrow> None
      | Some (Panic v, w') \<Rightarrow> Some (Panic v, \<lparr>W = w', Called = Called st @ [k]\<rparr>)
      | Some (Ret rcode, w') \<Rightarrow>
          Some (Ret (),
                \<lparr>W = (if RcodeNoClientWrite rcode then DefaultErrorFunc SizeAndDo w' r rcode
                       else w'),
                 Called = Called st @ [k]\<rparr>))"

lemma NextLabel_from_bounds:
  "NextLabel_from s i quote = (j, False) \<Longrightarrow> i < j \<and> j < length s"
proof (induction s i quote rule: NextLabel_from.induct)
  case (1 s i quote)
  show ?case
  proof (cases "i + 1 < length s")
    case False
    with "1.prems" show ?thesis by simp
  next
    case True
    show ?thesis
    proof (cases "s ! i = CHR 0x5C")
      case bs: True
      with True "1.prems" have "NextLabel_from s (i + 1) (\<not> quote) = (j, False)" by simp
      with "1.IH"(1) [OF True bs] show ?thesis by simp
    next
      case nbs: False
      show ?thesis
      proof (cases "s ! i = CHR ''.''")
        case dot: True
        show ?thesis
        proof (cases quote)
          case q: True
          with True nbs dot "1.prems" have "NextLabel_from s (i + 1) False = (j, False)" by simp
          with "1.IH"(2) [OF True nbs dot q] show ?thesis by simp
        next
          case False
          with True nbs dot "1.prems" show ?thesis by simp
        qed
      next
        case ndot: False
        with True nbs "1.prems" have "NextLabel_from s (i + 1) False = (j, False)" by simp
        with "1.IH"(3) [OF True nbs ndot] show ?thesis by simp
      qed
    qed
  qed
qed

lemma NextLabel_bounds:
  "NextLabel q off = (off', False) \<Longrightarrow> off < off' \<and> off' < length q"
  unfolding NextLabel_def by (rule NextLabel_from_bounds)

text \<open>
  The loop of lines 221-244, from the offset \<open>off\<close>. \<open>Some\<close> is the call of
  the chain at line 233 with what follows it up to the \<^verbatim>\<open>return\<close> of line 237
  (itself \<open>None\<close> when the chain does not return), \<open>None\<close> the
  \<^verbatim>\<open>break\<close> of line 242.
\<close>

function walk ::
  "(Msg \<Rightarrow> Msg \<Rightarrow> Msg) \<Rightarrow> (string \<rightharpoonup> zone) \<Rightarrow> dispatch \<Rightarrow> Msg \<Rightarrow> string \<Rightarrow>
   16 word \<Rightarrow> nat \<Rightarrow> (unit go \<times> dispatch) option option" where
  "walk SizeAndDo zones st r q qtype off =
     (case (case zones (scratch q off) of
              Some h \<Rightarrow> if qtype \<noteq> TypeDS then Some (invoke SizeAndDo (scratch q off) h st r)
                        else None
            | None \<Rightarrow> None) of
        Some res \<Rightarrow> Some res
      | None \<Rightarrow>
          (case NextLabel q off of
             (off', end) \<Rightarrow>
               if end then None else walk SizeAndDo zones st r q qtype off'))"
  by pat_completeness auto
termination
proof (relation "measure (\<lambda>(SizeAndDo, zones, st, r, q, qtype, off). length q - off)", goal_cases)
  case 1
  show ?case by simp
next
  case (2 SizeAndDo zones st r q qtype off off' e)
  then have "NextLabel q off = (off', False)" by (cases e) (simp_all add: eq_commute)
  from NextLabel_bounds [OF this] have "length q - off' < length q - off" by arith
  then show ?case by simp
qed

text \<open>
  The body of \<^verbatim>\<open>ServeDNS\<close>, lines 207-257. \<^verbatim>\<open>r.Question[0]\<close> panics on a
  message without a question.
\<close>

definition ServeDNS_body ::
  "(Msg \<Rightarrow> Msg \<Rightarrow> Msg) \<Rightarrow> (string \<rightharpoonup> zone) \<Rightarrow> dispatch \<Rightarrow> Msg \<Rightarrow>
   (unit go \<times> dispatch) option" where
  "ServeDNS_body SizeAndDo zones st r =
     (case Edns0Version r of
        Some m \<Rightarrow> Some (Ret (), st\<lparr>W := w_WriteMsg (W st) m\<rparr>)
      | None \<Rightarrow>
          (case Question r of
             [] \<Rightarrow> Some (Panic index_out_of_range, st)
           | qu # _ \<Rightarrow>
               (case walk SizeAndDo zones st r (Name qu) (Qtype qu) 0 of
                  Some res \<Rightarrow> res
                | None \<Rightarrow>
                    (case zones ''.'' of
                       Some h \<Rightarrow> invoke SizeAndDo ''.'' h st r
                     | None \<Rightarrow>
                         Some (Ret (),
                               st\<lparr>W := DefaultErrorFunc SizeAndDo (W st) r RcodeRefused\<rparr>)))))"

text \<open>
  The deferred function of lines 199-205, run when the body has returned or
  panicked. \<^verbatim>\<open>recover()\<close> ends a panic and yields its value: for a value
  other than nil line 203 answers with server failure, on the sink as the panic
  left it; for a nil value nothing is written. A body that returned is left
  alone. A body that does not return never reaches the deferred function. The
  answer of line 203 is built by \<^verbatim>\<open>DefaultErrorFunc\<close> with the parameter
  \<open>SizeAndDo\<close>, a total function: that the functions it stands for return
  is taken for granted here.
\<close>

definition recovered ::
  "(Msg \<Rightarrow> Msg \<Rightarrow> Msg) \<Rightarrow> Msg \<Rightarrow> (unit go \<times> dispatch) option \<Rightarrow>
   (unit go \<times> dispatch) option" where
  "recovered SizeAndDo r res =
     (case res of
        None \<Rightarrow> None
      | Some (Panic NilValue, st') \<Rightarrow> Some (Ret (), st')
      | Some (Panic (Value v), st') \<Rightarrow>
          Some (Ret (), st'\<lparr>W := DefaultErrorFunc SizeAndDo (W st') r RcodeServerFailure\<rparr>)
      | Some (Ret u, st') \<Rightarrow> Some (Ret u, st'))"

definition ServeDNS ::
  "(Msg \<Rightarrow> Msg \<Rightarrow> Msg) \<Rightarrow> (string \<rightharpoonup> zone) \<Rightarrow> dispatch \<Rightarrow> Msg \<Rightarrow>
   (unit go \<times> dispatch) option" where
  "ServeDNS SizeAndDo zones st r = recovered SizeAndDo r (ServeDNS_body SizeAndDo zones st r)"

subsection \<open>The walk as the specification words it\<close>

text \<open>
  "Matching walks from most-specific to least-specific label suffix": the
  candidates of a name are the name itself, then the name without its first
  label, and so on while something is left. \<open>after_label\<close> is what follows the
  first label of a name (nothing, when the name has no label end before its
  last byte); a backslash escapes the byte after it.
\<close>

fun after_label :: "string \<Rightarrow> bool \<Rightarrow> string" where
  "after_label [] quote = []"
| "after_label (c # cs) quote =
     (if c = CHR 0x5C then after_label cs (\<not> quote)
      else if c = CHR ''.'' \<and> \<not> quote then cs
      else after_label cs False)"

lemma after_label_suffix: "suffix (after_label q quote) q"
  by (induction q arbitrary: quote) (auto simp: suffix_Cons)

lemma after_label_length: "q \<noteq> [] \<Longrightarrow> length (after_label q quote) < length q"
proof (induction q arbitrary: quote)
  case Nil
  then show ?case by simp
next
  case (Cons c cs)
  have "length (after_label cs b) \<le> length cs" for b
    using after_label_suffix [of cs b] by (simp add: suffix_length_le)
  then show ?case
    by (auto simp: less_Suc_eq_le)
qed

function suffixes :: "string \<Rightarrow> string list" where
  "suffixes q = q # (if after_label q False = [] then [] else suffixes (after_label q False))"
  by pat_completeness auto
termination
proof (relation "measure length", goal_cases)
  case 1
  show ?case by simp
next
  case (2 q)
  then have "q \<noteq> []" by auto
  from after_label_length [OF this] show ?case by simp
qed

text \<open>The first candidate, in that order, whose lower-cased form is registered.\<close>

definition first_match :: "(string \<rightharpoonup> zone) \<Rightarrow> string \<Rightarrow> string option" where
  "first_match zones q = find (\<lambda>c. zones (map lower_byte c) \<noteq> None) (suffixes q)"

declare suffixes.simps [simp del]
declare walk.simps [simp del]
declare NextLabel_from.simps [simp del]

section \<open>Connections and pools\<close>

text \<open>
  The errors the proxy client produces or passes on. \<open>ErrTimeout\<close> is the error
  of a read whose deadline passes with nothing to read; \<open>ErrOther\<close> stands for
  the errors of the network and of the codec.
\<close>

datatype error =
  ErrShortRead | ErrId | ErrTruncated | ErrConnEmpty | ErrShortBuffer
  | ErrTooLarge | ErrTimeout | ErrOther string

text \<open>
  A \<^verbatim>\<open>net.Conn\<close>: its dynamic type, which the type switches of the codec
  branch on, the address it was dialled to, what the remote end delivers to the
  successive reads (a chunk of bytes, or an error), the error its writes fail
  with (if they do), and the byte slices written to it, oldest first.
\<close>

datatype conn_type = TCPConn | TLSConn | UDPConn

datatype event = Data "byte list" | Fail error

record Conn =
  ctype :: conn_type
  raddr :: string
  inbox :: "event list"
  wfail :: "error option"
  outbox :: "byte list list"

text \<open>
  The \<^verbatim>\<open>Read\<close> method of a connection, into a buffer of \<open>k\<close> bytes. A stream
  keeps what did not fit for the next read; a datagram that does not fit loses
  its tail.
\<close>

definition conn_Read :: "Conn \<Rightarrow> nat \<Rightarrow> (byte list \<times> error option) \<times> Conn" where
  "conn_Read c k =
     (case inbox c of
        [] \<Rightarrow> (([], Some ErrTimeout), c)
      | Fail e # rest \<Rightarrow> (([], Some e), c\<lparr>inbox := rest\<rparr>)
      | Data bs # rest \<Rightarrow>
          if length bs \<le> k then ((bs, None), c\<lparr>inbox := rest\<rparr>)
          else if ctype c = UDPConn then ((take k bs, None), c\<lparr>inbox := rest\<rparr>)
          else ((take k bs, None), c\<lparr>inbox := Data (drop k bs) # rest\<rparr>))"

text \<open>The \<^verbatim>\<open>Write\<close> method of a connection: all of \<open>bs\<close>, or nothing and an error.\<close>

definition conn_Write :: "Conn \<Rightarrow> byte list \<Rightarrow> (nat \<times> error option) \<times> Conn" where
  "conn_Write c bs =
     (case wfail c of
        None \<Rightarrow> ((length bs, None), c\<lparr>outbox := outbox c @ [bs]\<rparr>)
      | Some e \<Rightarrow> ((0, Some e), c))"

text \<open>
  \<^verbatim>\<open>net.DialTimeout\<close>: the network names the type of the connection.
  \<open>upstream\<close> is what the remote end will deliver on it.
\<close>

definition DialTimeout :: "string \<Rightarrow> string \<Rightarrow> event list \<Rightarrow> Conn option" where
  "DialTimeout net address upstream =
     (if net = ''tcp'' then
        Some \<lparr>ctype = TCPConn, raddr = address, inbox = upstream, wfail = None, outbox = []\<rparr>
      else if net = ''udp'' then
        Some \<lparr>ctype = UDPConn, raddr = address, inbox = upstream, wfail = None, outbox = []\<rparr>
      else None)"

text \<open>
  A channel pool of the pool library: its initial and maximal sizes and the
  dialer it was made with (\<^verbatim>\<open>dialTimeout(network, address, defaultTimeout)\<close>).
  Every connection it hands out was made by that dialer.
\<close>

record Pool =
  InitialCap :: nat
  MaxCap :: nat
  network :: string
  address :: string

definition NewChannelPool :: "nat \<Rightarrow> nat \<Rightarrow> string \<times> string \<Rightarrow> Pool" where
  "NewChannelPool initial maxcap dialer =
     \<lparr>InitialCap = initial, MaxCap = maxcap, network = fst dialer, address = snd dialer\<rparr>"

definition Get :: "Pool \<Rightarrow> event list \<Rightarrow> Conn option" where
  "Get p upstream = DialTimeout (network p) (address p) upstream"

definition NewUDPPool :: "string \<Rightarrow> Pool" where
  "NewUDPPool addr = NewChannelPool 2 10 (''udp'', addr)"

definition NewTCPPool :: "string \<Rightarrow> Pool" where
  "NewTCPPool addr = NewChannelPool 1 5 (''udp'', addr)"

record UpstreamHost =
  TCPPool :: Pool
  UDPPool :: Pool

section \<open>The proxy client and its wire framing\<close>

text \<open>
  The parts of the DNS library the client calls, as parameters: the message
  codec (\<^verbatim>\<open>Msg.Pack\<close>, \<^verbatim>\<open>Msg.Unpack\<close>, which fills a fresh message and may
  report an error beside it) and the name tables of types and classes.
\<close>

record dnslib =
  Pack :: "Msg \<Rightarrow> error + byte list"
  Unpack :: "byte list \<Rightarrow> Msg \<times> error option"
  TypeToString :: "16 word \<rightharpoonup> string"
  ClassToString :: "16 word \<rightharpoonup> string"

definition MinMsgSize :: nat where "MinMsgSize = 512"
definition MaxMsgSize :: nat where "MaxMsgSize = 65535"

definition BigEndian_Uint16 :: "byte \<Rightarrow> byte \<Rightarrow> 16 word" where
  "BigEndian_Uint16 b0 b1 = push_bit 8 (ucast b0) OR ucast b1"

definition BigEndian_PutUint16 :: "16 word \<Rightarrow> byte list" where
  "BigEndian_PutUint16 v = [ucast (drop_bit 8 v), ucast v]"

text \<open>
  \<^verbatim>\<open>tcpMsgLen\<close>: one read into a buffer of two bytes. The result is the length
  (0 beside an error) and the error.
\<close>

definition tcpMsgLen :: "Conn \<Rightarrow> (nat \<times> error option) \<times> Conn" where
  "tcpMsgLen t =
     (case conn_Read t 2 of
        ((bs, Some e), t') \<Rightarrow> ((0, Some e), t')
      | ((bs, None), t') \<Rightarrow>
          (case bs of
             [b0, b1] \<Rightarrow>
               (let l = BigEndian_Uint16 b0 b1
                in if l = 0 then ((0, Some ErrShortRead), t') else ((unat l, None), t'))
           | _ \<Rightarrow> ((0, Some ErrShortRead), t')))"

lemma conn_Read_progress:
  assumes "conn_Read t k = ((bs, None), t')" and "0 < k"
  shows "length (inbox t') < length (inbox t) \<and> length bs \<le> k
         \<or> length (inbox t') = length (inbox t) \<and> length bs = k"
  using assms
  by (auto simp: conn_Read_def split: list.splits event.splits if_splits)

text \<open>
  \<^verbatim>\<open>tcpRead\<close> into a buffer of \<open>lp\<close> bytes. The result is the filled part
  \<^verbatim>\<open>p[:n]\<close> of the buffer (so \<open>n\<close> is its length) and the error. The loop of
  lines 195-201 carries the bytes collected so far.
\<close>

function tcpRead_loop :: "Conn \<Rightarrow> nat \<Rightarrow> byte list \<Rightarrow> (byte list \<times> error option) \<times> Conn" where
  "tcpRead_loop t lp acc =
     (if length acc < lp then
        (case conn_Read t (lp - length acc) of
           ((bs, Some e), t') \<Rightarrow> ((acc, Some e), t')
         | ((bs, None), t') \<Rightarrow> tcpRead_loop t' lp (acc @ bs))
      else ((acc, None), t))"
  by pat_completeness auto

termination
proof (relation "measure (\<lambda>(t, lp, acc). (lp - length acc) + length (inbox t))", goal_cases)
  case 1
  show ?case by simp
next
  case (2 t lp acc x t' bs e)
  then have "conn_Read t (lp - length acc) = ((bs, None), t')" and "0 < lp - length acc"
    by auto
  from conn_Read_progress [OF this] 2(1) show ?case by auto
qed

definition tcpRead :: "Conn \<Rightarrow> nat \<Rightarrow> (byte list \<times> error option) \<times> Conn" where
  "tcpRead t lp =
     (case conn_Read t lp of
        ((bs, Some e), t') \<Rightarrow> ((bs, Some e), t')
      | ((bs, None), t') \<Rightarrow> tcpRead_loop t' lp bs)"

text \<open>
  \<^verbatim>\<open>Read\<close>, into a buffer of \<open>lp\<close> bytes. The result is the filled part of the
  buffer, the count \<open>n\<close> (which line 222 sets to the announced length, with
  nothing read) and the error. On a connection that is neither a TCP nor a TLS
  one, line 227 calls \<^verbatim>\<open>Read\<close> itself, with the same arguments.
\<close>

partial_function (option) Read ::
  "Conn option \<Rightarrow> nat \<Rightarrow> ((byte list \<times> nat \<times> error option) \<times> Conn option) option" where
  "Read co lp =
     (case co of
        None \<Rightarrow> Some (([], 0, Some ErrConnEmpty), co)
      | Some c \<Rightarrow>
          if lp < 2 then Some (([], 0, Some ErrShortBuffer), co)
          else if ctype c = TCPConn \<or> ctype c = TLSConn then
            (case tcpMsgLen c of
               ((l, Some e), c') \<Rightarrow> Some (([], 0, Some e), Some c')
             | ((l, None), c') \<Rightarrow>
                 if l > lp then Some (([], l, Some ErrShortBuffer), Some c')
                 else (case tcpRead c' l of
                         ((bs, err), c'') \<Rightarrow> Some ((bs, length bs, err), Some c'')))
          else Read co lp)"

text \<open>
  Lines 155-169 of \<^verbatim>\<open>readMsgHeader\<close>, for the \<^verbatim>\<open>hdr = nil\<close> its one caller
  passes: an error is passed on, fewer than 12 bytes are a short read, otherwise
  the result is \<^verbatim>\<open>p[:n]\<close>.
\<close>

definition read_result :: "byte list \<Rightarrow> nat \<Rightarrow> error option \<Rightarrow> byte list option \<times> error option" where
  "read_result bs n err =
     (case err of
        Some e \<Rightarrow> (None, Some e)
      | None \<Rightarrow> if n < 12 then (None, Some ErrShortRead) else (Some (take n bs), None))"

text \<open>
  \<^verbatim>\<open>readMsgHeader\<close>. In the stream case line 140 declares an \<^verbatim>\<open>err\<close> of its
  own (\<^verbatim>\<open>l, err := tcpMsgLen(r)\<close>, in the block of the case), and line 145
  assigns the error of \<^verbatim>\<open>tcpRead\<close> to that one: the \<^verbatim>\<open>err\<close> of the function,
  which line 155 tests, is still nil there, while \<open>n\<close> is the count
  \<^verbatim>\<open>tcpRead\<close> returned.
\<close>

definition readMsgHeader ::
  "Conn option \<Rightarrow> 16 word \<Rightarrow> ((byte list option \<times> error option) \<times> Conn option) option" where
  "readMsgHeader co udpsize =
     (case (case co of
              Some c \<Rightarrow> if ctype c = TCPConn \<or> ctype c = TLSConn then Some c else None
            | None \<Rightarrow> None) of
        Some t \<Rightarrow>
          (case tcpMsgLen t of
             ((l, Some e), t') \<Rightarrow> Some ((None, Some e), Some t')
           | ((l, None), t') \<Rightarrow>
               (case tcpRead t' l of
                  ((bs, err), t'') \<Rightarrow> Some (read_result bs (length bs) None, Some t'')))
      | None \<Rightarrow>
          (case Read co (if unat udpsize > MinMsgSize then unat udpsize else MinMsgSize) of
             None \<Rightarrow> None
           | Some ((bs, n, err), co') \<Rightarrow> Some (read_result bs n err, co')))"

definition ReadMsg ::
  "dnslib \<Rightarrow> Conn option \<Rightarrow> 16 word \<Rightarrow> ((Msg option \<times> error option) \<times> Conn option) option" where
  "ReadMsg lib co udpsize =
     (case readMsgHeader co udpsize of
        None \<Rightarrow> None
      | Some ((p, Some e), co') \<Rightarrow> Some ((None, Some e), co')
      | Some ((p, None), co') \<Rightarrow>
          (case Unpack lib (case p of Some bs \<Rightarrow> bs | None \<Rightarrow> []) of
             (m, None) \<Rightarrow> Some ((Some m, None), co')
           | (m, Some e) \<Rightarrow>
               if e = ErrTruncated then Some ((Some m, Some e), co')
               else Some ((None, Some e), co')))"

text \<open>\<^verbatim>\<open>WriteMsg\<close>: line 240 calls the \<^verbatim>\<open>Write\<close> method of the connection.\<close>

definition WriteMsg :: "dnslib \<Rightarrow> Conn \<Rightarrow> Msg \<Rightarrow> error option \<times> Conn" where
  "WriteMsg lib co m =
     (case Pack lib m of
        Inl e \<Rightarrow> (Some e, co)
      | Inr out \<Rightarrow>
          (case conn_Write co out of
             ((n, Some e), co') \<Rightarrow> (Some e, co')
           | ((n, None), co') \<Rightarrow> (None, co')))"

text \<open>
  \<^verbatim>\<open>Write\<close>, the function of lines 246-266, which no function of the file
  calls.
\<close>

definition Write :: "Conn \<Rightarrow> byte list \<Rightarrow> (nat \<times> error option) \<times> Conn" where
  "Write co p =
     (if ctype co = TCPConn \<or> ctype co = TLSConn then
        (let lp = length p
         in if lp < 2 then ((0, Some ErrShortBuffer), co)
            else if lp > MaxMsgSize then ((0, Some ErrTooLarge), co)
            else conn_Write co (BigEndian_PutUint16 (word_of_nat lp) @ p))
      else conn_Write co p)"

text \<open>
  Lines 84-89 of \<^verbatim>\<open>Client.exchange\<close>: the size the request advertises in its
  EDNS0 record when that is at least the minimum, else the size passed in.
\<close>

definition advertised :: "Msg \<Rightarrow> 16 word \<Rightarrow> 16 word" where
  "advertised m udpsize =
     (case IsEdns0 m of
        Some opt \<Rightarrow> if unat (UDPSize opt) \<ge> MinMsgSize then UDPSize opt else udpsize
      | None \<Rightarrow> udpsize)"

text \<open>
  \<^verbatim>\<open>Client.exchange\<close>. Setting a deadline on a nil connection panics. The
  identifier is compared only when the read reported no error.
\<close>

definition exchange ::
  "dnslib \<Rightarrow> Msg \<Rightarrow> Conn option \<Rightarrow> 16 word \<Rightarrow>
   ((Msg option \<times> error option) \<times> Conn option) go option" where
  "exchange lib m co udpsize =
     (case co of
        None \<Rightarrow> Some (Panic nil_dereference)
      | Some c \<Rightarrow>
          (case WriteMsg lib c m of
             (Some e, c') \<Rightarrow> Some (Ret ((None, Some e), Some c'))
           | (None, c') \<Rightarrow>
               (case ReadMsg lib (Some c') (advertised m udpsize) of
                  None \<Rightarrow> None
                | Some ((Some r, None), co') \<Rightarrow>
                    Some (Ret ((Some r, if MsgId r \<noteq> MsgId m then Some ErrId else None), co'))
                | Some ((None, None), co') \<Rightarrow> Some (Panic nil_dereference)
                | Some ((r, Some e), co') \<Rightarrow> Some (Ret ((r, Some e), co')))))"

text \<open>The key of line 73, with the lookups of lines 61-68.\<close>

definition dedup_key :: "dnslib \<Rightarrow> Question \<Rightarrow> string" where
  "dedup_key lib qu =
     Name qu
     @ (case TypeToString lib (Qtype qu) of Some t1 \<Rightarrow> t1 | None \<Rightarrow> ''nop'')
     @ (case ClassToString lib (Qclass qu) of Some cl1 \<Rightarrow> cl1 | None \<Rightarrow> ''nop'')"

text \<open>
  Modelled from the spec: \<^verbatim>\<open>singleflight.Group.Do\<close> is not among the sources.
  "If an identical key is already in flight, the caller waits on the existing
  exchange's result instead of issuing a new one; otherwise this caller becomes
  the sole executor for that key." One exchange at a time is modelled: no key is
  in flight when \<open>Do\<close> is entered, and the caller runs the function.
\<close>

definition group_Do :: "string \<Rightarrow> (unit \<Rightarrow> 'a) \<Rightarrow> 'a" where
  "group_Do key fn = fn ()"

text \<open>
  \<^verbatim>\<open>Client.Exchange\<close>, without the round-trip time. \<^verbatim>\<open>m.Question[0]\<close> panics
  on a message without a question.
\<close>

definition Exchange ::
  "dnslib \<Rightarrow> Msg \<Rightarrow> Conn option \<Rightarrow> ((Msg option \<times> error option) \<times> Conn option) go option" where
  "Exchange lib m co =
     (case Question m of
        [] \<Rightarrow> Some (Panic index_out_of_range)
      | qu # _ \<Rightarrow> group_Do (dedup_key lib qu) (\<lambda>_. exchange lib m co (word_of_nat MinMsgSize)))"

text \<open>
  \<^verbatim>\<open>Client.ServeDNS\<close>. \<open>upstream\<close> is what the upstream host delivers on the
  connection borrowed. Line 55 panics on a nil reply.
\<close>

definition Client_ServeDNS ::
  "dnslib \<Rightarrow> ResponseWriter \<Rightarrow> Msg \<Rightarrow> UpstreamHost \<Rightarrow> event list \<Rightarrow>
   (Msg option \<times> error option) go option" where
  "Client_ServeDNS lib w r u upstream =
     (let co = (if Proto w = ''tcp'' then Get (TCPPool u) upstream else Get (UDPPool u) upstream)
      in case Exchange lib r co of
           None \<Rightarrow> None
         | Some (Panic v) \<Rightarrow> Some (Panic v)
         | Some (Ret ((reply, err), co')) \<Rightarrow>
             (let err' = (case reply of
                            Some rp \<Rightarrow> if Truncated rp then None else err
                          | None \<Rightarrow> err)
              in case err' of
                   Some e \<Rightarrow> Some (Ret (None, Some e))
                 | None \<Rightarrow>
                     (case reply of
                        None \<Rightarrow> Some (Panic nil_dereference)
                      | Some rp \<Rightarrow> Some (Ret (Some (rp\<lparr>Compress := True, MsgId := MsgId r\<rparr>), None)))))"

section \<open>Concrete inputs\<close>

text \<open>
  The inputs of the concrete runs below: a \<open>SizeAndDo\<close> that sends the answer
  as it is, a chain that answers with a given code and one that panics, a query
  with one question of class IN, a client reached over UDP, and registries.
\<close>

definition plain :: "Msg \<Rightarrow> Msg \<Rightarrow> Msg" where
  "plain r a = a"

definition answering :: "int \<Rightarrow> Handler" where
  "answering rcode w r = Some (Ret rcode, w_WriteMsg w (SetRcode r rcode))"

definition panicking :: "panic_value \<Rightarrow> Handler" where
  "panicking v w r = Some (Panic v, w)"

definition query :: "string \<Rightarrow> 16 word \<Rightarrow> Msg" where
  "query n t =
     \<lparr>MsgId = 7, Response = False, Truncated = False, Compress = False, Rcode = 0,
      Question = [\<lparr>Name = n, Qtype = t, Qclass = 1\<rparr>], IsEdns0 = None\<rparr>"

definition client :: ResponseWriter where
  "client = \<lparr>Proto = ''udp'', RemoteAddr = ''192.0.2.1:5353'', Sent = []\<rparr>"

definition start :: dispatch where
  "start = \<lparr>W = client, Called = []\<rparr>"

definition two_zones :: "string \<rightharpoonup> zone" where
  "two_zones = [''a.b.example.org.'' \<mapsto> \<lparr>stack = answering 0\<rparr>,
                ''example.org.'' \<mapsto> \<lparr>stack = answering 3\<rparr>]"

definition apex_and_parent :: "string \<rightharpoonup> zone" where
  "apex_and_parent = [''example.org.'' \<mapsto> \<lparr>stack = answering 0\<rparr>,
                      ''org.'' \<mapsto> \<lparr>stack = answering 3\<rparr>]"

definition badvers_query :: Msg where
  "badvers_query = (query ''www.other.net.'' 1)\<lparr>IsEdns0 := Some \<lparr>UDPSize = 4096, Version = 1\<rparr>\<rparr>"

definition faulty_zone :: "panic_value \<Rightarrow> string \<rightharpoonup> zone" where
  "faulty_zone v = [''example.org.'' \<mapsto> \<lparr>stack = panicking v\<rparr>]"

text \<open>
  A codec of the twelve header bytes alone, for the concrete exchanges below:
  identifier, the response and truncation bits of the third byte, the response
  code in the fourth.
\<close>

definition hdr_Pack :: "Msg \<Rightarrow> error + byte list" where
  "hdr_Pack m =
     Inr (BigEndian_PutUint16 (MsgId m)
          @ [(if Response m then 0x80 else 0) OR (if Truncated m then 0x02 else 0),
             word_of_int (Rcode m) AND 0x0F]
          @ [0, 0, 0, 0, 0, 0, 0, 0])"

definition hdr_Unpack :: "byte list \<Rightarrow> Msg \<times> error option" where
  "hdr_Unpack p =
     (case p of
        b0 # b1 # b2 # b3 # rest \<Rightarrow>
          (\<lparr>MsgId = BigEndian_Uint16 b0 b1, Response = bit b2 7, Truncated = bit b2 1,
            Compress = False, Rcode = uint (b3 AND 0x0F), Question = [], IsEdns0 = None\<rparr>,
           None)
      | _ \<Rightarrow>
          (\<lparr>MsgId = 0, Response = False, Truncated = False, Compress = False, Rcode = 0,
            Question = [], IsEdns0 = None\<rparr>,
           Some (ErrOther ''overflow unpacking header'')))"

definition hdr_lib :: dnslib where
  "hdr_lib =
     \<lparr>Pack = hdr_Pack, Unpack = hdr_Unpack,
      TypeToString = [1 \<mapsto> ''A'', 2 \<mapsto> ''NS'', 28 \<mapsto> ''AAAA'', 43 \<mapsto> ''DS''],
      ClassToString = [1 \<mapsto> ''IN'', 3 \<mapsto> ''CH'']\<rparr>"

text \<open>
  Connections to an upstream at \<open>192.0.2.53:53\<close> that will deliver \<open>upstream\<close>,
  a client reached over TCP, an upstream host with the pools the two
  constructors make, and one whose stream pool dials \<^verbatim>\<open>"tcp"\<close>.
\<close>

definition stream_to :: "event list \<Rightarrow> Conn" where
  "stream_to upstream =
     \<lparr>ctype = TCPConn, raddr = ''192.0.2.53:53'', inbox = upstream, wfail = None, outbox = []\<rparr>"

definition datagrams_to :: "event list \<Rightarrow> Conn" where
  "datagrams_to upstream =
     \<lparr>ctype = UDPConn, raddr = ''192.0.2.53:53'', inbox = upstream, wfail = None, outbox = []\<rparr>"

definition both_pools :: "string \<Rightarrow> UpstreamHost" where
  "both_pools addr = \<lparr>TCPPool = NewTCPPool addr, UDPPool = NewUDPPool addr\<rparr>"

text \<open>
  A chain of one member that forwards the request with the proxy client and
  writes the reply it gets, and a registry that serves \<open>example.org.\<close> with it
  through the pools the two constructors make.
\<close>

definition proxying :: "dnslib \<Rightarrow> UpstreamHost \<Rightarrow> event list \<Rightarrow> Handler" where
  "proxying lib u upstream w r =
     (case Client_ServeDNS lib w r u upstream of
        None \<Rightarrow> None
      | Some (Panic v) \<Rightarrow> Some (Panic v, w)
      | Some (Ret (Some reply, err)) \<Rightarrow> Some (Ret RcodeSuccess, w_WriteMsg w reply)
      | Some (Ret (None, err)) \<Rightarrow> Some (Ret RcodeServerFailure, w))"

definition forwarding_zone :: "string \<rightharpoonup> zone" where
  "forwarding_zone =
     [''example.org.'' \<mapsto>
        \<lparr>stack = proxying hdr_lib (both_pools ''192.0.2.53:53'')
                   [Data [0, 7, 0x80, 0, 0, 0, 0, 0, 0, 0, 0, 0]]\<rparr>]"

definition stream_client :: ResponseWriter where
  "stream_client = \<lparr>Proto = ''tcp'', RemoteAddr = ''192.0.2.1:5353'', Sent = []\<rparr>"

definition stream_pools :: UpstreamHost where
  "stream_pools =
     \<lparr>TCPPool = NewChannelPool 1 5 (''tcp'', ''192.0.2.53:53''),
      UDPPool = NewChannelPool 2 10 (''udp'', ''192.0.2.53:53'')\<rparr>"

section \<open>The walk of the dispatcher\<close>

lemma after_label_short: "length xs \<le> 1 \<Longrightarrow> after_label xs quote = []"
  by (cases xs) auto

lemma NextLabel_from_after:
  "snd (NextLabel_from s i quote) = (after_label (drop i s) quote = []) \<and>
   (after_label (drop i s) quote \<noteq> [] \<longrightarrow>
      fst (NextLabel_from s i quote) = length s - length (after_label (drop i s) quote))"
proof (induction s i quote rule: NextLabel_from.induct)
  case (1 s i quote)
  show ?case
  proof (cases "i + 1 < length s")
    case False
    then have "after_label (drop i s) quote = []" by (intro after_label_short) simp
    moreover from False have "snd (NextLabel_from s i quote)" by (subst NextLabel_from.simps) simp
    ultimately show ?thesis by simp
  next
    case True
    then have d: "drop i s = s ! i # drop (i + 1) s" by (simp add: Cons_nth_drop_Suc)
    consider (bs) "s ! i = CHR 0x5C"
      | (dot) "s ! i \<noteq> CHR 0x5C" "s ! i = CHR ''.''" "\<not> quote"
      | (qdot) "s ! i \<noteq> CHR 0x5C" "s ! i = CHR ''.''" "quote"
      | (other) "s ! i \<noteq> CHR 0x5C" "s ! i \<noteq> CHR ''.''"
      by blast
    then show ?thesis
    proof cases
      case bs
      have "NextLabel_from s i quote = NextLabel_from s (i + 1) (\<not> quote)"
        using True bs by (subst NextLabel_from.simps) simp
      moreover have "after_label (drop i s) quote = after_label (drop (i + 1) s) (\<not> quote)"
        using bs by (simp add: d)
      ultimately show ?thesis using "1.IH"(1) [OF True bs] by simp
    next
      case dot
      have "NextLabel_from s i quote = (i + 1, False)"
        using True dot by (subst NextLabel_from.simps) simp
      moreover have "after_label (drop i s) quote = drop (i + 1) s"
        using dot by (simp add: d)
      ultimately show ?thesis using True by simp
    next
      case qdot
      have "NextLabel_from s i quote = NextLabel_from s (i + 1) False"
        using True qdot by (subst NextLabel_from.simps) simp
      moreover have "after_label (drop i s) quote = after_label (drop (i + 1) s) False"
        using qdot by (simp add: d)
      ultimately show ?thesis using "1.IH"(2) [OF True qdot(1,2,3)] by simp
    next
      case other
      have "NextLabel_from s i quote = NextLabel_from s (i + 1) False"
        using True other by (subst NextLabel_from.simps) simp
      moreover have "after_label (drop i s) quote = after_label (drop (i + 1) s) False"
        using other by (simp add: d)
      ultimately show ?thesis using "1.IH"(3) [OF True other] by simp
    qed
  qed
qed

lemma drop_suffix: "suffix x q \<Longrightarrow> drop (length q - length x) q = x"
  by (auto simp: suffix_def)

lemma NextLabel_after:
  "NextLabel q off = (off', e) \<Longrightarrow>
     e = (after_label (drop off q) False = []) \<and>
     (\<not> e \<longrightarrow> drop off' q = after_label (drop off q) False)"
proof -
  let ?x = "after_label (drop off q) False"
  assume nl: "NextLabel q off = (off', e)"
  have "suffix ?x (drop off q)" by (rule after_label_suffix)
  then have "suffix ?x q" by (rule suffix_order.trans) (rule suffix_drop)
  then have d: "drop (length q - length ?x) q = ?x" by (rule drop_suffix)
  from nl have eq: "NextLabel_from q off False = (off', e)" by (simp add: NextLabel_def)
  from NextLabel_from_after [of q off False]
  have e: "e = (?x = [])" and "\<not> e \<Longrightarrow> off' = length q - length ?x"
    unfolding eq by simp_all
  with d e show ?thesis by simp
qed

lemma suffixes_step:
  "NextLabel q off = (off', e) \<Longrightarrow>
   suffixes (drop off q) = drop off q # (if e then [] else suffixes (drop off' q))"
  using NextLabel_after [of q off off' e] by (subst suffixes.simps) auto

lemma walk_DS: "walk sd zones st r q TypeDS off = None"
proof (induction sd zones st r q "TypeDS" off rule: walk.induct)
  case (1 sd zones st r q off)
  obtain off' e where nl: "NextLabel q off = (off', e)" by (cases "NextLabel q off")
  have z: "(case zones (scratch q off) of
              Some h \<Rightarrow> if TypeDS \<noteq> TypeDS then Some (invoke sd (scratch q off) h st r)
                        else None
            | None \<Rightarrow> None) = None"
    by (simp split: option.split)
  show ?case
  proof (cases e)
    case True
    with nl z show ?thesis by (subst walk.simps) simp
  next
    case False
    from "1.hyps" [OF z nl [symmetric] False] nl z False show ?thesis
      by (subst walk.simps) simp
  qed
qed

lemma walk_find:
  "qtype \<noteq> TypeDS \<Longrightarrow>
   walk sd zones st r q qtype off =
     (case first_match zones (drop off q) of
        None \<Rightarrow> None
      | Some c \<Rightarrow> map_option (\<lambda>h. invoke sd (map lower_byte c) h st r) (zones (map lower_byte c)))"
proof (induction sd zones st r q qtype off rule: walk.induct)
  case (1 sd zones st r q qtype off)
  obtain off' e where nl: "NextLabel q off = (off', e)" by (cases "NextLabel q off")
  note sf = suffixes_step [OF nl]
  show ?case
  proof (cases "zones (scratch q off)")
    case (Some h)
    then have "walk sd zones st r q qtype off = Some (invoke sd (scratch q off) h st r)"
      using "1.prems" by (subst walk.simps) simp
    moreover from Some have "first_match zones (drop off q) = Some (drop off q)"
      by (simp add: first_match_def sf scratch_def)
    ultimately show ?thesis using Some by (simp add: scratch_def)
  next
    case None
    then have z: "(case zones (scratch q off) of
              Some h \<Rightarrow> if qtype \<noteq> TypeDS then Some (invoke sd (scratch q off) h st r)
                        else None
            | None \<Rightarrow> None) = None"
      by simp
    show ?thesis
    proof (cases e)
      case True
      with nl z have "walk sd zones st r q qtype off = None" by (subst walk.simps) simp
      moreover from None True have "first_match zones (drop off q) = None"
        by (simp add: first_match_def sf scratch_def)
      ultimately show ?thesis by simp
    next
      case False
      with nl z have "walk sd zones st r q qtype off = walk sd zones st r q qtype off'"
        by (subst walk.simps) simp
      moreover from None False have "first_match zones (drop off q) = first_match zones (drop off' q)"
        by (simp add: first_match_def sf scratch_def)
      moreover note "1.IH" [OF z nl [symmetric] False "1.prems"]
      ultimately show ?thesis by simp
    qed
  qed
qed

subsection \<open>The candidates\<close>

lemma suffixes_head: "suffixes q \<noteq> [] \<and> hd (suffixes q) = q"
  by (subst (1 2) suffixes.simps) simp

lemma suffixes_suffix: "c \<in> set (suffixes q) \<Longrightarrow> suffix c q"
proof (induction q arbitrary: c rule: suffixes.induct)
  case (1 q)
  from "1.prems" consider "c = q" | "after_label q False \<noteq> []" "c \<in> set (suffixes (after_label q False))"
    by (subst (asm) suffixes.simps) (auto split: if_splits)
  then show ?case
  proof cases
    case 1
    then show ?thesis by simp
  next
    case 2
    from "1.IH" [OF 2] have "suffix c (after_label q False)" .
    then show ?thesis using after_label_suffix [of q False] by (rule suffix_order.trans)
  qed
qed

lemma suffixes_sorted: "sorted_wrt (\<lambda>a b. length b < length a) (suffixes q)"
proof (induction q rule: suffixes.induct)
  case (1 q)
  show ?case
  proof (cases "after_label q False = []")
    case True
    then show ?thesis by (subst suffixes.simps) simp
  next
    case False
    then have "q \<noteq> []" by auto
    then have lt: "length (after_label q False) < length q" by (rule after_label_length)
    have "length c < length q" if "c \<in> set (suffixes (after_label q False))" for c
      using suffix_length_le [OF suffixes_suffix [OF that]] lt by simp
    with "1.IH" [OF False] False show ?thesis by (subst suffixes.simps) simp
  qed
qed

lemma find_longest:
  "sorted_wrt (\<lambda>a b. length b < length a) xs \<Longrightarrow> c \<in> set xs \<Longrightarrow> P c \<Longrightarrow>
   \<forall>c' \<in> set xs. length c < length c' \<longrightarrow> \<not> P c' \<Longrightarrow> find P xs = Some c"
  by (induction xs) auto

lemma first_match_longest:
  assumes "c \<in> set (suffixes q)" and "zones (map lower_byte c) = Some h"
    and "\<forall>c' \<in> set (suffixes q). length c < length c' \<longrightarrow> zones (map lower_byte c') = None"
  shows "first_match zones q = Some c"
  unfolding first_match_def
  using suffixes_sorted [of q] assms by (intro find_longest) auto

lemma after_label_plain:
  "CHR ''.'' \<notin> set l \<Longrightarrow> CHR 0x5C \<notin> set l \<Longrightarrow> after_label (l @ CHR ''.'' # rest) False = rest"
  by (induction l) auto

lemma suffixes_label:
  assumes "CHR ''.'' \<notin> set l" and "CHR 0x5C \<notin> set l"
  shows "suffixes (l @ CHR ''.'' # rest) =
           (l @ CHR ''.'' # rest) # (if rest = [] then [] else suffixes rest)"
  by (subst suffixes.simps) (simp add: after_label_plain [OF assms])

lemma suffixes_example:
  "suffixes ''www.a.b.example.org.'' =
     [''www.a.b.example.org.'', ''a.b.example.org.'', ''b.example.org.'', ''example.org.'', ''org.'']"
  by code_simp

subsection \<open>What the dispatcher does with a query\<close>

lemma ServeDNS_body_routed:
  assumes "Edns0Version r = None" and "Question r = qu # qs" and "Qtype qu \<noteq> TypeDS"
    and "first_match zones (Name qu) = Some c" and "zones (map lower_byte c) = Some h"
  shows "ServeDNS_body sd zones st r = invoke sd (map lower_byte c) h st r"
  using assms walk_find [of "Qtype qu" sd zones st r "Name qu" 0]
  by (simp add: ServeDNS_body_def)

lemma walk_unmatched:
  assumes "\<forall>c \<in> set (suffixes q). zones (map lower_byte c) = None"
  shows "walk sd zones st r q qtype 0 = None"
proof (cases "qtype = TypeDS")
  case True
  then show ?thesis by (simp add: walk_DS)
next
  case False
  from assms have "first_match zones q = None"
    by (simp add: first_match_def find_None_iff)
  with False show ?thesis by (simp add: walk_find)
qed

section \<open>Routing to the longest registered suffix\<close>

text \<open>
  C1, amended. For every query that passes the EDNS version check, has a
  question and is not of type DS: when \<open>c\<close> is the longest candidate of the walk
  (the query name, then the name with its leading labels removed one at a time,
  \<open>suffixes\<close>) whose lower-cased form is registered, the dispatcher invokes the
  chain registered under that lower-cased form, and its result is that chain's,
  under the recovery. So a name under both a registered subzone and a
  registered parent zone goes to the subzone's chain.
\<close>

theorem ServeDNS_longest_suffix_wins:
  assumes "Edns0Version r = None" and "Question r = qu # qs" and "Qtype qu \<noteq> TypeDS"
    and "c \<in> set (suffixes (Name qu))" and "zones (map lower_byte c) = Some h"
    and "\<forall>c' \<in> set (suffixes (Name qu)). length c < length c' \<longrightarrow> zones (map lower_byte c') = None"
  shows "ServeDNS SizeAndDo zones st r =
           recovered SizeAndDo r (invoke SizeAndDo (map lower_byte c) h st r)"
proof -
  from assms(4-6) have "first_match zones (Name qu) = Some c" by (rule first_match_longest)
  from ServeDNS_body_routed [OF assms(1-3) this assms(5)] show ?thesis
    by (simp add: ServeDNS_def)
qed

lemma two_zones_simps:
  "two_zones ''a.b.example.org.'' = Some \<lparr>stack = answering 0\<rparr>"
  "two_zones ''example.org.'' = Some \<lparr>stack = answering 3\<rparr>"
  "two_zones ''www.a.b.example.org.'' = None"
  "two_zones ''b.example.org.'' = None"
  "two_zones ''org.'' = None"
  "two_zones ''.'' = None"
  by (simp_all add: two_zones_def)

lemma lower_example: "map lower_byte ''A.b.Example.ORG.'' = ''a.b.example.org.''"
  by code_simp

lemma suffixes_example_mixed:
  "suffixes ''www.A.b.Example.ORG.'' =
     [''www.A.b.Example.ORG.'', ''A.b.Example.ORG.'', ''b.Example.ORG.'', ''Example.ORG.'', ''ORG.'']"
  by code_simp

theorem ServeDNS_longest_suffix_wins_witness:
  "ServeDNS plain two_zones start (query ''www.A.b.Example.ORG.'' 1) =
     Some (Ret (),
           \<lparr>W = client\<lparr>Sent := [SetRcode (query ''www.A.b.Example.ORG.'' 1) 0]\<rparr>,
            Called = [''a.b.example.org.'']\<rparr>)"
proof -
  let ?r = "query ''www.A.b.Example.ORG.'' 1"
  have 1: "Edns0Version ?r = None" by (simp add: Edns0Version_def query_def)
  have 2: "Question ?r = \<lparr>Name = ''www.A.b.Example.ORG.'', Qtype = 1, Qclass = 1\<rparr> # []"
    by (simp add: query_def)
  have 3: "Qtype \<lparr>Name = ''www.A.b.Example.ORG.'', Qtype = 1, Qclass = 1\<rparr> \<noteq> TypeDS"
    by (simp add: TypeDS_def)
  have 4: "''A.b.Example.ORG.'' \<in> set (suffixes (Name \<lparr>Name = ''www.A.b.Example.ORG.'', Qtype = 1, Qclass = 1\<rparr>))"
    by (simp add: suffixes_example_mixed)
  have 5: "two_zones (map lower_byte ''A.b.Example.ORG.'') = Some \<lparr>stack = answering 0\<rparr>"
    by (simp only: lower_example two_zones_simps)
  have l: "map lower_byte ''www.A.b.Example.ORG.'' = ''www.a.b.example.org.''" by code_simp
  have 6: "\<forall>c' \<in> set (suffixes (Name \<lparr>Name = ''www.A.b.Example.ORG.'', Qtype = 1, Qclass = 1\<rparr>)).
             length ''A.b.Example.ORG.'' < length c' \<longrightarrow> two_zones (map lower_byte c') = None"
    using l by (simp add: suffixes_example_mixed two_zones_simps del: list.map)
  have "ServeDNS plain two_zones start ?r =
          recovered plain ?r (invoke plain (map lower_byte ''A.b.Example.ORG.'') \<lparr>stack = answering 0\<rparr> start ?r)"
    by (rule ServeDNS_longest_suffix_wins [OF 1 2 3 4 5 6])
  also have "\<dots> = Some (Ret (),
      \<lparr>W = client\<lparr>Sent := [SetRcode ?r 0]\<rparr>, Called = [''a.b.example.org.'']\<rparr>)"
    by (simp only: lower_example)
       (simp add: recovered_def invoke_def answering_def start_def client_def w_WriteMsg_def
          RcodeNoClientWrite_def RcodeServerFailure_def RcodeRefused_def RcodeFormatError_def
          RcodeNotImplemented_def)
  finally show ?thesis .
qed

text \<open>
  As stated for every query, C1 fails on a query of type DS: the subzone and
  its parent are both registered, the subzone is the first registered candidate,
  and no chain is invoked.
\<close>

theorem DS_query_skips_the_subzone:
  "first_match two_zones ''www.a.b.example.org.'' = Some ''a.b.example.org.'' \<and>
   ServeDNS plain two_zones start (query ''www.a.b.example.org.'' TypeDS) =
     Some (Ret (),
           \<lparr>W = client\<lparr>Sent := [SetRcode (query ''www.a.b.example.org.'' TypeDS) RcodeRefused]\<rparr>,
            Called = []\<rparr>)"
proof -
  let ?r = "query ''www.a.b.example.org.'' TypeDS"
  have l: "map lower_byte ''www.a.b.example.org.'' = ''www.a.b.example.org.''"
     "map lower_byte ''a.b.example.org.'' = ''a.b.example.org.''" by code_simp+
  have "first_match two_zones ''www.a.b.example.org.'' = Some ''a.b.example.org.''"
    using l by (simp add: first_match_def suffixes_example two_zones_simps del: list.map)
  moreover have "ServeDNS_body plain two_zones start ?r =
     Some (Ret (), start\<lparr>W := DefaultErrorFunc plain (W start) ?r RcodeRefused\<rparr>)"
    by (simp add: ServeDNS_body_def Edns0Version_def query_def walk_DS two_zones_simps)
  ultimately show ?thesis
    by (simp add: ServeDNS_def recovered_def DefaultErrorFunc_def w_WriteMsg_def plain_def
          start_def client_def)
qed

section \<open>Queries of type DS\<close>

text \<open>
  The guard of line 232 stands at every match of the loop, so for a query of
  type DS the loop serves nothing: only the root entry can answer it.
\<close>

lemma ServeDNS_DS_only_root:
  assumes "Question r = qu # qs" and "Qtype qu = TypeDS"
    and "ServeDNS sd zones st r = Some (g, st')"
  shows "set (Called st') \<subseteq> set (Called st) \<union> {''.''}"
  using assms
  by (auto simp: ServeDNS_def ServeDNS_body_def recovered_def walk_DS invoke_def
           split: option.splits prod.splits go.splits panic_value.splits)

text \<open>
  C2. A DS query for \<open>example.org.\<close>, with the zone and its parent \<open>org.\<close> both
  registered and no root entry: the claim routes it to the chain of \<open>org.\<close>; the
  dispatcher invokes no chain and answers refused.
\<close>

theorem DS_at_apex_reaches_no_chain:
  "ServeDNS plain apex_and_parent start (query ''example.org.'' TypeDS) =
     Some (Ret (),
           \<lparr>W = client\<lparr>Sent := [SetRcode (query ''example.org.'' TypeDS) RcodeRefused]\<rparr>,
            Called = []\<rparr>)"
proof -
  let ?r = "query ''example.org.'' TypeDS"
  have "ServeDNS_body plain apex_and_parent start ?r =
     Some (Ret (), start\<lparr>W := DefaultErrorFunc plain (W start) ?r RcodeRefused\<rparr>)"
    by (simp add: ServeDNS_body_def Edns0Version_def query_def walk_DS apex_and_parent_def)
  then show ?thesis
    by (simp add: ServeDNS_def recovered_def DefaultErrorFunc_def w_WriteMsg_def plain_def
          start_def client_def)
qed

section \<open>No zone, no root entry\<close>

text \<open>
  C9, amended. For every query that passes the EDNS version check and has a
  question: when no candidate of its name is registered (in lower case) and the
  registry has no root entry, the dispatcher writes exactly one message, the
  refused answer, and invokes no chain.
\<close>

theorem ServeDNS_refuses_unmatched:
  assumes "Edns0Version r = None" and "Question r = qu # qs"
    and "\<forall>c \<in> set (suffixes (Name qu)). zones (map lower_byte c) = None"
    and "zones ''.'' = None"
  shows "ServeDNS SizeAndDo zones st r =
           Some (Ret (),
                 st\<lparr>W := (W st)\<lparr>Sent := Sent (W st) @ [SizeAndDo r (SetRcode r RcodeRefused)]\<rparr>\<rparr>)"
  using assms(1,2,4) walk_unmatched [OF assms(3)]
  by (simp add: ServeDNS_def ServeDNS_body_def recovered_def DefaultErrorFunc_def w_WriteMsg_def)

theorem ServeDNS_refuses_unmatched_witness:
  "ServeDNS plain two_zones start (query ''www.other.net.'' 1) =
     Some (Ret (),
           \<lparr>W = client\<lparr>Sent := [SetRcode (query ''www.other.net.'' 1) RcodeRefused]\<rparr>,
            Called = []\<rparr>)"
proof -
  let ?r = "query ''www.other.net.'' 1"
  have 1: "Edns0Version ?r = None" by (simp add: Edns0Version_def query_def)
  have 2: "Question ?r = \<lparr>Name = ''www.other.net.'', Qtype = 1, Qclass = 1\<rparr> # []"
    by (simp add: query_def)
  have s: "suffixes ''www.other.net.'' = [''www.other.net.'', ''other.net.'', ''net.'']"
    by code_simp
  have l: "map lower_byte ''www.other.net.'' = ''www.other.net.''"
    "map lower_byte ''other.net.'' = ''other.net.''" "map lower_byte ''net.'' = ''net.''"
    by code_simp+
  have 3: "\<forall>c \<in> set (suffixes (Name \<lparr>Name = ''www.other.net.'', Qtype = 1, Qclass = 1\<rparr>)).
             two_zones (map lower_byte c) = None"
    using l by (simp add: s two_zones_def del: list.map)
  have 4: "two_zones ''.'' = None" by (simp add: two_zones_def)
  from ServeDNS_refuses_unmatched [OF 1 2 3 4, of plain start] show ?thesis
    by (simp add: plain_def start_def client_def)
qed

text \<open>
  As stated for every query, C9 fails on a query with an unsupported EDNS
  version: nothing is registered, and the answer written is the bad-version one.
\<close>

theorem unsupported_version_is_not_refused:
  "first_match Map.empty ''www.other.net.'' = None \<and>
   ServeDNS plain Map.empty start badvers_query =
     Some (Ret (), \<lparr>W = client\<lparr>Sent := [SetRcode badvers_query RcodeBadVers]\<rparr>, Called = []\<rparr>) \<and>
   Rcode (SetRcode badvers_query RcodeBadVers) \<noteq> RcodeRefused"
  by (simp add: ServeDNS_def ServeDNS_body_def recovered_def Edns0Version_def badvers_query_def
        query_def w_WriteMsg_def start_def client_def SetRcode_def RcodeBadVers_def RcodeRefused_def
        first_match_def find_None_iff)

section \<open>The header codec on concrete bytes\<close>

lemma hdr_Pack_query: "hdr_Pack (query ''example.org.'' 1) = Inr [0, 7, 0, 0, 0, 0, 0, 0, 0, 0, 0, 0]"
  by (simp add: hdr_Pack_def query_def BigEndian_PutUint16_def)

lemma hdr_Unpack_reply: "hdr_Unpack [0, 9, 0x82, 0, 0, 0, 0, 0, 0, 0, 0, 0] =
  (\<lparr>MsgId = 9, Response = True, Truncated = True,
            Compress = False, Rcode = 0, Question = [], IsEdns0 = None\<rparr>, None)"
  by (simp add: hdr_Unpack_def BigEndian_Uint16_def bit_numeral_Bit0_Suc_iff bit_numeral_Bit1_Suc_iff)

section \<open>The dedup key\<close>

text \<open>
  The key is the name as the question carries it, followed by the names of the
  type and the class: it reads nothing else of the message.
\<close>

lemma dedup_key_reads_the_question_only:
  "Name qu = Name qu' \<Longrightarrow> Qtype qu = Qtype qu' \<Longrightarrow> Qclass qu = Qclass qu' \<Longrightarrow>
   dedup_key lib qu = dedup_key lib qu'"
  by (simp add: dedup_key_def)

text \<open>
  C4. Two questions whose names differ only in the case of one letter, with
  the same type and class: the claim gives them one key; line 73 concatenates
  the name as it is, and the keys differ.
\<close>

theorem dedup_key_keeps_letter_case:
  "map lower_byte ''Example.org.'' = map lower_byte ''example.org.'' \<and>
   dedup_key hdr_lib \<lparr>Name = ''Example.org.'', Qtype = 1, Qclass = 1\<rparr> = ''Example.org.AIN'' \<and>
   dedup_key hdr_lib \<lparr>Name = ''example.org.'', Qtype = 1, Qclass = 1\<rparr> = ''example.org.AIN'' \<and>
   dedup_key hdr_lib \<lparr>Name = ''Example.org.'', Qtype = 1, Qclass = 1\<rparr>
     \<noteq> dedup_key hdr_lib \<lparr>Name = ''example.org.'', Qtype = 1, Qclass = 1\<rparr>"
proof -
  have "map lower_byte ''Example.org.'' = map lower_byte ''example.org.''" by code_simp
  then show ?thesis by (simp add: dedup_key_def hdr_lib_def del: list.map)
qed

section \<open>The pools\<close>

text \<open>
  C5. Whatever the address, the connection borrowed from the pool that
  \<^verbatim>\<open>NewTCPPool\<close> makes is a datagram connection: line 315 dials \<^verbatim>\<open>"udp"\<close>.
  The claim forwards a query received over TCP over a stream connection.
\<close>

theorem NewTCPPool_hands_out_datagram_connections:
  "Get (NewTCPPool addr) upstream =
     Some \<lparr>ctype = UDPConn, raddr = addr, inbox = upstream, wfail = None, outbox = []\<rparr>"
  by (simp add: Get_def NewTCPPool_def NewChannelPool_def DialTimeout_def)

lemma NewUDPPool_conn:
  "Get (NewUDPPool addr) upstream =
     Some \<lparr>ctype = UDPConn, raddr = addr, inbox = upstream, wfail = None, outbox = []\<rparr>"
  by (simp add: Get_def NewUDPPool_def NewChannelPool_def DialTimeout_def)

section \<open>Writing a message\<close>

text \<open>
  \<^verbatim>\<open>Write\<close> frames: on a stream it sends the length, big-endian in two bytes,
  then the payload, in one write, and sends nothing of a payload above the
  maximal size. \<^verbatim>\<open>WriteMsg\<close> does not go through it.
\<close>

lemma Write_frames:
  assumes "ctype co = TCPConn \<or> ctype co = TLSConn" and "2 \<le> length p"
    and "length p \<le> MaxMsgSize" and "wfail co = None"
  shows "Write co p =
           ((length p + 2, None),
            co\<lparr>outbox := outbox co @ [BigEndian_PutUint16 (word_of_nat (length p)) @ p]\<rparr>)"
  using assms by (simp add: Write_def conn_Write_def Let_def BigEndian_PutUint16_def)

lemma Write_too_large:
  assumes "ctype co = TCPConn \<or> ctype co = TLSConn" and "length p > MaxMsgSize"
  shows "Write co p = ((0, Some ErrTooLarge), co)"
  using assms by (simp add: Write_def MaxMsgSize_def)

lemma WriteMsg_unframed:
  "WriteMsg lib co m =
     (case Pack lib m of
        Inl e \<Rightarrow> (Some e, co)
      | Inr out \<Rightarrow>
          (case wfail co of
             None \<Rightarrow> (None, co\<lparr>outbox := outbox co @ [out]\<rparr>)
           | Some e \<Rightarrow> (Some e, co)))"
  by (simp add: WriteMsg_def conn_Write_def split: sum.split option.split)

text \<open>
  C6. A query written with \<^verbatim>\<open>WriteMsg\<close> to a TCP connection: the bytes on the
  connection are the twelve packed bytes, with no length before them, where
  \<^verbatim>\<open>Write\<close> sends fourteen; and a message that packs to 65536 bytes is
  written whole, without an error.
\<close>

theorem WriteMsg_writes_no_length_prefix:
  "WriteMsg hdr_lib (stream_to []) (query ''example.org.'' 1) =
     (None, (stream_to [])\<lparr>outbox := [[0, 7, 0, 0, 0, 0, 0, 0, 0, 0, 0, 0]]\<rparr>) \<and>
   Write (stream_to []) [0, 7, 0, 0, 0, 0, 0, 0, 0, 0, 0, 0] =
     ((14, None), (stream_to [])\<lparr>outbox := [[0, 12, 0, 7, 0, 0, 0, 0, 0, 0, 0, 0, 0, 0]]\<rparr>) \<and>
   WriteMsg (hdr_lib\<lparr>Pack := \<lambda>m. Inr (replicate 65536 0)\<rparr>) (stream_to []) (query ''example.org.'' 1) =
     (None, (stream_to [])\<lparr>outbox := [replicate 65536 0]\<rparr>)"
  by (simp add: WriteMsg_unframed hdr_lib_def hdr_Pack_query stream_to_def Write_def MaxMsgSize_def
        conn_Write_def BigEndian_PutUint16_def Let_def)

declare tcpRead_loop.simps [simp del]

section \<open>Reading from a datagram connection\<close>

text \<open>
  On a connection that is neither a TCP nor a TLS one, \<^verbatim>\<open>Read\<close> with a buffer
  of two bytes or more calls itself with the same arguments: it returns nothing.
  The buffer \<^verbatim>\<open>readMsgHeader\<close> makes has 512 bytes at least, so neither
  \<^verbatim>\<open>readMsgHeader\<close> nor \<^verbatim>\<open>ReadMsg\<close> returns on such a connection.
\<close>

lemma Read_returns_only_off_datagrams:
  assumes "Read co lp = Some res"
  shows "\<forall>c. co = Some c \<longrightarrow> ctype c = UDPConn \<longrightarrow> lp < 2"
  using assms
proof (rule Read.raw_induct [where P = "\<lambda>co lp res. \<forall>c. co = Some c \<longrightarrow> ctype c = UDPConn \<longrightarrow> lp < 2", rotated])
  fix f co lp res
  assume IH: "\<And>co lp res. f co lp = Some res \<Longrightarrow> \<forall>c. co = Some c \<longrightarrow> ctype c = UDPConn \<longrightarrow> lp < 2"
    and step: "(case co of
        None \<Rightarrow> Some (([], 0, Some ErrConnEmpty), co)
      | Some c \<Rightarrow>
          if lp < 2 then Some (([], 0, Some ErrShortBuffer), co)
          else if ctype c = TCPConn \<or> ctype c = TLSConn then
            (case tcpMsgLen c of
               ((l, Some e), c') \<Rightarrow> Some (([], 0, Some e), Some c')
             | ((l, None), c') \<Rightarrow>
                 if l > lp then Some (([], l, Some ErrShortBuffer), Some c')
                 else (case tcpRead c' l of
                         ((bs, err), c'') \<Rightarrow> Some ((bs, length bs, err), Some c'')))
          else f co lp) = Some res"
  show "\<forall>c. co = Some c \<longrightarrow> ctype c = UDPConn \<longrightarrow> lp < 2"
  proof (intro allI impI)
    fix c
    assume c: "co = Some c" and u: "ctype c = UDPConn"
    show "lp < 2"
    proof (rule ccontr)
      assume "\<not> lp < 2"
      with step c u have "f co lp = Some res" by simp
      from IH [OF this] c u have "lp < 2" by simp
      with \<open>\<not> lp < 2\<close> show False by simp
    qed
  qed
qed

lemma Read_datagram_diverges:
  "ctype c = UDPConn \<Longrightarrow> 2 \<le> lp \<Longrightarrow> Read (Some c) lp = None"
  using Read_returns_only_off_datagrams [of "Some c" lp]
  by (cases "Read (Some c) lp") auto

lemma ReadMsg_datagram_diverges:
  assumes "ctype c = UDPConn"
  shows "ReadMsg lib (Some c) udpsize = None"
proof -
  have "2 \<le> (if unat udpsize > MinMsgSize then unat udpsize else MinMsgSize)"
    by (simp add: MinMsgSize_def)
  from Read_datagram_diverges [OF assms this] assms show ?thesis
    by (simp add: ReadMsg_def readMsgHeader_def)
qed

text \<open>
  C7. A request without an EDNS0 record, so a buffer of 512 bytes, and a
  datagram connection on which the reply of the upstream is waiting: the claim
  has the one packet read into the buffer; \<^verbatim>\<open>ReadMsg\<close> does not return, and
  neither does the exchange of the proxy client over the datagram pool.
\<close>

theorem datagram_read_never_returns:
  "advertised (query ''example.org.'' 1) (word_of_nat MinMsgSize) = 512 \<and>
   ReadMsg hdr_lib (Some (datagrams_to [Data [0, 7, 0x80, 0, 0, 0, 0, 0, 0, 0, 0, 0]])) 512 = None \<and>
   Client_ServeDNS hdr_lib client (query ''example.org.'' 1) (both_pools ''192.0.2.53:53'')
     [Data [0, 7, 0x80, 0, 0, 0, 0, 0, 0, 0, 0, 0]] = None"
proof -
  have 1: "advertised (query ''example.org.'' 1) (word_of_nat MinMsgSize) = 512"
    by (simp add: advertised_def query_def MinMsgSize_def)
  have 2: "ReadMsg hdr_lib (Some (datagrams_to ev)) us = None" for ev us
    by (rule ReadMsg_datagram_diverges) (simp add: datagrams_to_def)
  have "Client_ServeDNS hdr_lib client (query ''example.org.'' 1) (both_pools ''192.0.2.53:53'')
     [Data [0, 7, 0x80, 0, 0, 0, 0, 0, 0, 0, 0, 0]] = None"
    using 2 [unfolded datagrams_to_def]
    by (simp add: Client_ServeDNS_def client_def both_pools_def NewUDPPool_conn Exchange_def
          query_def group_Do_def exchange_def WriteMsg_unframed hdr_lib_def hdr_Pack_def
          ReadMsg_datagram_diverges)
  with 1 2 show ?thesis by simp
qed

section \<open>Reading from a stream\<close>

lemma tcpMsgLen_short:
  assumes "inbox t = Data bs # rest" and "length bs < 2"
  shows "tcpMsgLen t = ((0, Some ErrShortRead), t\<lparr>inbox := rest\<rparr>)"
proof -
  from assms have "conn_Read t 2 = ((bs, None), t\<lparr>inbox := rest\<rparr>)"
    by (simp add: conn_Read_def)
  moreover from assms(2) have "bs = [] \<or> (\<exists>b. bs = [b])"
    by (cases bs; cases "tl bs") auto
  ultimately show ?thesis by (auto simp: tcpMsgLen_def)
qed

lemma tcpMsgLen_zero:
  assumes "inbox t = Data (0 # 0 # ms) # rest"
  shows "fst (tcpMsgLen t) = (0, Some ErrShortRead)"
proof -
  from assms have "fst (conn_Read t 2) = ([0, 0], None)"
    by (cases ms) (auto simp: conn_Read_def numeral_2_eq_2)
  then obtain t' where "conn_Read t 2 = (([0, 0], None), t')"
    by (cases "conn_Read t 2") auto
  then show ?thesis by (simp add: tcpMsgLen_def BigEndian_Uint16_def)
qed

lemma tcpRead_loop_full: "lp \<le> length acc \<Longrightarrow> tcpRead_loop t lp acc = ((acc, None), t)"
  by (subst tcpRead_loop.simps) simp

lemma tcpRead_loop_collects:
  assumes "ctype t \<noteq> UDPConn" and "inbox t = map Data chunks @ rest"
    and "length acc \<le> lp" and "lp \<le> length acc + length (concat chunks)"
  shows "fst (tcpRead_loop t lp acc) = (take lp (acc @ concat chunks), None)"
  using assms
proof (induction chunks arbitrary: t acc)
  case Nil
  then show ?case by (simp add: tcpRead_loop_full)
next
  case (Cons c cs)
  show ?case
  proof (cases "length acc < lp")
    case False
    with Cons.prems show ?thesis by (simp add: tcpRead_loop_full)
  next
    case True
    let ?k = "lp - length acc"
    show ?thesis
    proof (cases "length c \<le> ?k")
      case fits: True
      let ?t' = "t\<lparr>inbox := map Data cs @ rest\<rparr>"
      from Cons.prems(2) fits have rd: "conn_Read t ?k = ((c, None), ?t')"
        by (simp add: conn_Read_def)
      have "fst (tcpRead_loop ?t' lp (acc @ c)) = (take lp ((acc @ c) @ concat cs), None)"
        using Cons.prems fits True by (intro Cons.IH) auto
      moreover have "tcpRead_loop t lp acc = tcpRead_loop ?t' lp (acc @ c)"
        using True rd by (subst tcpRead_loop.simps) simp
      ultimately show ?thesis by simp
    next
      case False
      let ?t' = "t\<lparr>inbox := Data (drop ?k c) # map Data cs @ rest\<rparr>"
      from Cons.prems(1,2) False have rd: "conn_Read t ?k = ((take ?k c, None), ?t')"
        by (simp add: conn_Read_def)
      have "tcpRead_loop t lp acc = tcpRead_loop ?t' lp (acc @ take ?k c)"
        using True rd by (subst tcpRead_loop.simps) simp
      also have "\<dots> = ((acc @ take ?k c, None), ?t')"
        using True False by (intro tcpRead_loop_full) simp
      finally show ?thesis using True False by simp
    qed
  qed
qed

lemma tcpRead_collects:
  assumes "ctype t \<noteq> UDPConn" and "inbox t = map Data chunks @ rest"
    and "0 < lp" and "lp \<le> length (concat chunks)"
  shows "fst (tcpRead t lp) = (take lp (concat chunks), None)"
proof (cases chunks)
  case Nil
  with assms show ?thesis by simp
next
  case (Cons c cs)
  show ?thesis
  proof (cases "length c \<le> lp")
    case True
    let ?t' = "t\<lparr>inbox := map Data cs @ rest\<rparr>"
    from assms(2) Cons True have rd: "conn_Read t lp = ((c, None), ?t')"
      by (simp add: conn_Read_def)
    have "fst (tcpRead_loop ?t' lp c) = (take lp (c @ concat cs), None)"
      using assms Cons True by (intro tcpRead_loop_collects) auto
    with rd Cons show ?thesis by (simp add: tcpRead_def)
  next
    case False
    let ?t' = "t\<lparr>inbox := Data (drop lp c) # map Data cs @ rest\<rparr>"
    from assms(1,2) Cons False have rd: "conn_Read t lp = ((take lp c, None), ?t')"
      by (simp add: conn_Read_def)
    have "tcpRead_loop ?t' lp (take lp c) = ((take lp c, None), ?t')"
      using False by (intro tcpRead_loop_full) simp
    with rd Cons False show ?thesis by (simp add: tcpRead_def)
  qed
qed

text \<open>
  Line 157 on a stream: a body of fewer than twelve bytes is a short read,
  also when the read of the body ended on an error.
\<close>

lemma readMsgHeader_stream_short_body:
  assumes "ctype t = TCPConn \<or> ctype t = TLSConn"
    and "tcpMsgLen t = ((l, None), t')" and "tcpRead t' l = ((bs, e), t'')"
    and "length bs < 12"
  shows "readMsgHeader (Some t) udpsize = Some ((None, Some ErrShortRead), Some t'')"
  using assms by (auto simp: readMsgHeader_def read_result_def)

text \<open>
  The error of the read of the body does not leave \<^verbatim>\<open>readMsgHeader\<close>: with
  twelve bytes or more collected, what was collected is returned as the message.
\<close>

lemma readMsgHeader_stream_partial_body:
  assumes "ctype t = TCPConn \<or> ctype t = TLSConn"
    and "tcpMsgLen t = ((l, None), t')" and "tcpRead t' l = ((bs, e), t'')"
    and "12 \<le> length bs"
  shows "readMsgHeader (Some t) udpsize = Some ((Some bs, None), Some t'')"
  using assms by (auto simp: readMsgHeader_def read_result_def)

text \<open>
  C10. \<^verbatim>\<open>tcpMsgLen\<close> reads once: when that read delivers fewer than two bytes
  the result is a short read, whatever the stream holds after them, and so it is
  when the two bytes read are zero. \<^verbatim>\<open>tcpRead\<close> reads on: when the stream
  delivers, in chunks of any sizes, at least the \<open>lp\<close> bytes asked for, the
  result is the first \<open>lp\<close> bytes of the chunks joined, and no error.
\<close>

theorem length_prefix_read_once_body_accumulated:
  "(\<forall>bs rest. inbox t = Data bs # rest \<and> length bs < 2 \<longrightarrow>
      tcpMsgLen t = ((0, Some ErrShortRead), t\<lparr>inbox := rest\<rparr>)) \<and>
   (\<forall>ms rest. inbox t = Data (0 # 0 # ms) # rest \<longrightarrow>
      fst (tcpMsgLen t) = (0, Some ErrShortRead)) \<and>
   (\<forall>chunks rest lp.
      ctype t \<noteq> UDPConn \<and> inbox t = map Data chunks @ rest \<and> 0 < lp \<and>
      lp \<le> length (concat chunks) \<longrightarrow>
      fst (tcpRead t lp) = (take lp (concat chunks), None))"
  by (auto simp: tcpMsgLen_short tcpMsgLen_zero tcpRead_collects)

theorem length_prefix_read_once_body_accumulated_witness:
  "tcpMsgLen (stream_to [Data [0], Data [12], Data [0, 7, 0x80, 0, 0, 0, 0, 0, 0, 0, 0, 0]]) =
     ((0, Some ErrShortRead),
      stream_to [Data [12], Data [0, 7, 0x80, 0, 0, 0, 0, 0, 0, 0, 0, 0]]) \<and>
   fst (tcpMsgLen (stream_to [Data [0, 0, 7, 7]])) = (0, Some ErrShortRead) \<and>
   fst (tcpRead (stream_to [Data [0, 7, 0x80], Data [0, 0], Data [0, 0, 0, 0, 0, 0, 0, 9, 9]]) 12) =
     ([0, 7, 0x80, 0, 0, 0, 0, 0, 0, 0, 0, 0], None)"
proof -
  let ?t1 = "stream_to [Data [0], Data [12], Data [0, 7, 0x80, 0, 0, 0, 0, 0, 0, 0, 0, 0]]"
  let ?t2 = "stream_to [Data [0, 0, 7, 7]]"
  let ?t3 = "stream_to [Data [0, 7, 0x80], Data [0, 0], Data [0, 0, 0, 0, 0, 0, 0, 9, 9]]"
  have a: "inbox ?t1 = Data [0] # [Data [12], Data [0, 7, 0x80, 0, 0, 0, 0, 0, 0, 0, 0, 0]] \<and> length [0 :: byte] < 2"
    by (simp add: stream_to_def)
  have b: "inbox ?t2 = Data (0 # 0 # [7, 7]) # []" by (simp add: stream_to_def)
  have c: "ctype ?t3 \<noteq> UDPConn \<and> inbox ?t3 = map Data [[0, 7, 0x80], [0, 0], [0, 0, 0, 0, 0, 0, 0, 9, 9]] @ [] \<and>
      0 < (12 :: nat) \<and> 12 \<le> length (concat [[0, 7, 0x80], [0, 0], [0, 0, 0, 0, 0, 0, 0, 9, 9 :: byte]])"
    by (simp add: stream_to_def)
  from length_prefix_read_once_body_accumulated [of ?t1] a
  have 1: "tcpMsgLen ?t1 = ((0, Some ErrShortRead), ?t1\<lparr>inbox := [Data [12], Data [0, 7, 0x80, 0, 0, 0, 0, 0, 0, 0, 0, 0]]\<rparr>)"
    by blast
  from length_prefix_read_once_body_accumulated [of ?t2] b
  have 2: "fst (tcpMsgLen ?t2) = (0, Some ErrShortRead)" by blast
  from length_prefix_read_once_body_accumulated [of ?t3] c
  have 3: "fst (tcpRead ?t3 12) = (take 12 (concat [[0, 7, 0x80], [0, 0], [0, 0, 0, 0, 0, 0, 0, 9, 9]]), None)"
    by blast
  from 1 2 3 show ?thesis by (simp add: stream_to_def)
qed

section \<open>The reply of an exchange\<close>

text \<open>On a stream connection the read, and so the exchange, returns.\<close>

lemma readMsgHeader_stream_returns:
  assumes "ctype c = TCPConn \<or> ctype c = TLSConn"
  shows "\<exists>res. readMsgHeader (Some c) udpsize = Some res"
  using assms by (auto simp: readMsgHeader_def split: prod.splits option.splits)

lemma ReadMsg_stream_returns:
  assumes "ctype c = TCPConn \<or> ctype c = TLSConn"
  shows "\<exists>res. ReadMsg lib (Some c) udpsize = Some res"
  using readMsgHeader_stream_returns [OF assms, of udpsize]
  by (auto simp: ReadMsg_def split: prod.splits option.splits)

lemma WriteMsg_ctype: "WriteMsg lib c m = (e, c') \<Longrightarrow> ctype c' = ctype c"
  by (auto simp: WriteMsg_unframed split: sum.splits option.splits)

lemma exchange_stream_returns:
  assumes "ctype c = TCPConn \<or> ctype c = TLSConn"
  shows "\<exists>res. exchange lib m (Some c) udpsize = Some res"
proof (cases "WriteMsg lib c m")
  case (Pair e c')
  from WriteMsg_ctype [OF Pair] assms have "ctype c' = TCPConn \<or> ctype c' = TLSConn" by simp
  from ReadMsg_stream_returns [OF this, of lib "advertised m udpsize"] Pair show ?thesis
    by (auto simp: exchange_def split: option.splits prod.splits)
qed

text \<open>
  C3, amended. For every exchange in which the request was written and a reply
  decoded: a reply marked truncated is returned as a success, compressible and
  with the identifier of the request, whatever error came with it; a reply not
  marked truncated is returned so only when it came without an error and with
  the identifier of the request, and otherwise the result is the error
  (\<open>ErrId\<close> for a foreign identifier) and no reply.
\<close>

theorem Client_ServeDNS_reply:
  assumes "Question r = qu # qs"
    and "(if Proto w = ''tcp'' then Get (TCPPool u) upstream else Get (UDPPool u) upstream) = Some c"
    and "WriteMsg lib c r = (None, c1)"
    and "ReadMsg lib (Some c1) (advertised r (word_of_nat MinMsgSize)) = Some ((Some reply, err), c2)"
  shows "Client_ServeDNS lib w r u upstream =
           Some (Ret (if Truncated reply then (Some (reply\<lparr>Compress := True, MsgId := MsgId r\<rparr>), None)
                      else case err of
                             Some e \<Rightarrow> (None, Some e)
                           | None \<Rightarrow>
                               if MsgId reply \<noteq> MsgId r then (None, Some ErrId)
                               else (Some (reply\<lparr>Compress := True, MsgId := MsgId r\<rparr>), None)))"
proof -
  have "Exchange lib r (Some c) =
          Some (Ret ((Some reply, case err of Some e \<Rightarrow> Some e
                                  | None \<Rightarrow> if MsgId reply \<noteq> MsgId r then Some ErrId else None), c2))"
    using assms(1,3,4) by (simp add: Exchange_def group_Do_def exchange_def split: option.split)
  with assms(2) show ?thesis
    unfolding Client_ServeDNS_def Let_def by (simp split: option.split)
qed

lemma tcpMsgLen_12:
  "tcpMsgLen (c\<lparr>inbox := Data [0, 12] # rest\<rparr>) = ((12, None), c\<lparr>inbox := rest\<rparr>)"
  by (simp add: tcpMsgLen_def conn_Read_def BigEndian_Uint16_def)

lemma tcpRead_12:
  "tcpRead (c\<lparr>inbox := [Data [b0, b1, b2, b3, b4, b5, b6, b7, b8, b9, b10, b11]]\<rparr>) 12 =
     (([b0, b1, b2, b3, b4, b5, b6, b7, b8, b9, b10, b11], None), c\<lparr>inbox := []\<rparr>)"
  by (simp add: tcpRead_def conn_Read_def tcpRead_loop_full)

lemma ReadMsg_12:
  assumes "ctype c = TCPConn"
  shows "ReadMsg lib (Some (c\<lparr>inbox := [Data [0, 12], Data [b0, b1, b2, b3, b4, b5, b6, b7, b8, b9, b10, b11]]\<rparr>)) us =
    (case Unpack lib [b0, b1, b2, b3, b4, b5, b6, b7, b8, b9, b10, b11] of
             (m, None) \<Rightarrow> Some ((Some m, None), Some (c\<lparr>inbox := []\<rparr>))
           | (m, Some e) \<Rightarrow>
               if e = ErrTruncated then Some ((Some m, Some e), Some (c\<lparr>inbox := []\<rparr>))
               else Some ((None, Some e), Some (c\<lparr>inbox := []\<rparr>)))"
  using assms
  by (simp add: ReadMsg_def readMsgHeader_def tcpMsgLen_12 tcpRead_12 read_result_def)

lemma hdr_Unpack_12:
  "hdr_Unpack [b0, b1, b2, b3, b4, b5, b6, b7, b8, b9, b10, b11] =
     (\<lparr>MsgId = BigEndian_Uint16 b0 b1, Response = bit b2 7, Truncated = bit b2 1,
            Compress = False, Rcode = uint (b3 AND 0x0F), Question = [], IsEdns0 = None\<rparr>,
           None)"
  by (simp add: hdr_Unpack_def)

lemma bits_82: "bit (0x82 :: byte) 1" "bit (0x82 :: byte) 7" "\<not> bit (0x80 :: byte) 1" "bit (0x80 :: byte) 7"
  by (simp_all add: bit_numeral_Bit0_Suc_iff bit_numeral_Bit1_Suc_iff numeral_eq_Suc)

theorem Client_ServeDNS_reply_witness:
  "Client_ServeDNS hdr_lib stream_client (query ''example.org.'' 1) stream_pools
     [Data [0, 12], Data [0, 7, 0x82, 0, 0, 0, 0, 0, 0, 0, 0, 0]] =
     Some (Ret (Some \<lparr>MsgId = 7, Response = True, Truncated = True, Compress = True, Rcode = 0,
                       Question = [], IsEdns0 = None\<rparr>, None)) \<and>
   Client_ServeDNS hdr_lib stream_client (query ''example.org.'' 1) stream_pools
     [Data [0, 12], Data [0, 9, 0x80, 0, 0, 0, 0, 0, 0, 0, 0, 0]] =
     Some (Ret (None, Some ErrId))"
proof -
  let ?r = "query ''example.org.'' 1"
  let ?qu = "\<lparr>Name = ''example.org.'', Qtype = 1, Qclass = 1\<rparr>"
  let ?c = "\<lambda>up. \<lparr>ctype = TCPConn, raddr = ''192.0.2.53:53'', inbox = up, wfail = None, outbox = []\<rparr>"
  let ?out = "[0, 7, 0, 0, 0, 0, 0, 0, 0, 0, 0, 0] :: byte list"
  have 1: "Question ?r = ?qu # []" by (simp add: query_def)
  have 2: "(if Proto stream_client = ''tcp'' then Get (TCPPool stream_pools) up
            else Get (UDPPool stream_pools) up) = Some (?c up)" for up
    by (simp add: stream_client_def stream_pools_def Get_def NewChannelPool_def DialTimeout_def)
  have 3: "WriteMsg hdr_lib (?c up) ?r = (None, (?c up)\<lparr>outbox := [?out]\<rparr>)" for up
    by (simp add: WriteMsg_unframed hdr_lib_def hdr_Pack_query)
  have us: "advertised ?r (word_of_nat MinMsgSize) = 512"
    by (simp add: advertised_def query_def MinMsgSize_def)
  let ?up1 = "[Data [0, 12], Data [0, 7, 0x82, 0, 0, 0, 0, 0, 0, 0, 0, 0]]"
  let ?up2 = "[Data [0, 12], Data [0, 9, 0x80, 0, 0, 0, 0, 0, 0, 0, 0, 0]]"
  let ?m1 = "\<lparr>MsgId = 7, Response = True, Truncated = True, Compress = False, Rcode = 0,
              Question = [], IsEdns0 = None\<rparr>"
  let ?m2 = "\<lparr>MsgId = 9, Response = True, Truncated = False, Compress = False, Rcode = 0,
              Question = [], IsEdns0 = None\<rparr>"
  have r1: "ReadMsg hdr_lib (Some ((?c ?up1)\<lparr>outbox := [?out]\<rparr>)) (advertised ?r (word_of_nat MinMsgSize))
             = Some ((Some ?m1, None), Some \<lparr>ctype = TCPConn, raddr = ''192.0.2.53:53'', inbox = [], wfail = None, outbox = [?out]\<rparr>)"
    using ReadMsg_12 [of "\<lparr>ctype = TCPConn, raddr = ''192.0.2.53:53'', inbox = [], wfail = None, outbox = [?out]\<rparr>" hdr_lib 0 7 "0x82" 0 0 0 0 0 0 0 0 0 512]
    by (simp add: us hdr_lib_def hdr_Unpack_12 bits_82 BigEndian_Uint16_def)
  have r2: "ReadMsg hdr_lib (Some ((?c ?up2)\<lparr>outbox := [?out]\<rparr>)) (advertised ?r (word_of_nat MinMsgSize))
             = Some ((Some ?m2, None), Some \<lparr>ctype = TCPConn, raddr = ''192.0.2.53:53'', inbox = [], wfail = None, outbox = [?out]\<rparr>)"
    using ReadMsg_12 [of "\<lparr>ctype = TCPConn, raddr = ''192.0.2.53:53'', inbox = [], wfail = None, outbox = [?out]\<rparr>" hdr_lib 0 9 "0x80" 0 0 0 0 0 0 0 0 0 512]
    by (simp add: us hdr_lib_def hdr_Unpack_12 bits_82 BigEndian_Uint16_def)
  from Client_ServeDNS_reply [OF 1 2 3 r1]
  have a: "Client_ServeDNS hdr_lib stream_client ?r stream_pools ?up1 =
     Some (Ret (Some \<lparr>MsgId = 7, Response = True, Truncated = True, Compress = True, Rcode = 0,
                       Question = [], IsEdns0 = None\<rparr>, None))"
    by (simp add: query_def)
  from Client_ServeDNS_reply [OF 1 2 3 r2]
  have b: "Client_ServeDNS hdr_lib stream_client ?r stream_pools ?up2 = Some (Ret (None, Some ErrId))"
    by (simp add: query_def)
  from a b show ?thesis by simp
qed

text \<open>
  As stated, C3 fails on a reply that is marked truncated and carries a
  foreign identifier: the identifier of the request is 7, that of the reply 9,
  and the reply is returned as a success.
\<close>

theorem truncated_reply_with_foreign_id_is_accepted:
  "fst (hdr_Unpack [0, 9, 0x82, 0, 0, 0, 0, 0, 0, 0, 0, 0]) =
     \<lparr>MsgId = 9, Response = True, Truncated = True, Compress = False, Rcode = 0,
      Question = [], IsEdns0 = None\<rparr> \<and>
   MsgId (query ''example.org.'' 1) = 7 \<and>
   Client_ServeDNS hdr_lib stream_client (query ''example.org.'' 1) stream_pools
     [Data [0, 12], Data [0, 9, 0x82, 0, 0, 0, 0, 0, 0, 0, 0, 0]] =
     Some (Ret (Some \<lparr>MsgId = 7, Response = True, Truncated = True, Compress = True, Rcode = 0,
                       Question = [], IsEdns0 = None\<rparr>, None))"
proof -
  let ?c = "\<lparr>ctype = TCPConn, raddr = ''192.0.2.53:53'', inbox = [], wfail = None,
             outbox = [[0, 7, 0, 0, 0, 0, 0, 0, 0, 0, 0, 0]]\<rparr>"
  have us: "advertised (query ''example.org.'' 1) (word_of_nat MinMsgSize) = 512"
    by (simp add: advertised_def query_def MinMsgSize_def)
  have u: "hdr_Unpack [0, 9, 0x82, 0, 0, 0, 0, 0, 0, 0, 0, 0] =
     (\<lparr>MsgId = 9, Response = True, Truncated = True, Compress = False, Rcode = 0,
      Question = [], IsEdns0 = None\<rparr>, None)"
    by (simp add: hdr_Unpack_12 bits_82 BigEndian_Uint16_def)
  have "ReadMsg hdr_lib (Some (?c\<lparr>inbox := [Data [0, 12], Data [0, 9, 0x82, 0, 0, 0, 0, 0, 0, 0, 0, 0]]\<rparr>)) 512 =
      Some ((Some \<lparr>MsgId = 9, Response = True, Truncated = True, Compress = False, Rcode = 0,
      Question = [], IsEdns0 = None\<rparr>, None), Some (?c\<lparr>inbox := []\<rparr>))"
    using u by (subst ReadMsg_12) (simp_all add: hdr_lib_def)
  then have "Client_ServeDNS hdr_lib stream_client (query ''example.org.'' 1) stream_pools
     [Data [0, 12], Data [0, 9, 0x82, 0, 0, 0, 0, 0, 0, 0, 0, 0]] =
     Some (Ret (Some \<lparr>MsgId = 7, Response = True, Truncated = True, Compress = True, Rcode = 0,
                       Question = [], IsEdns0 = None\<rparr>, None))"
    by (simp add: Client_ServeDNS_def stream_client_def stream_pools_def Get_def NewChannelPool_def
          DialTimeout_def Exchange_def group_Do_def exchange_def WriteMsg_unframed
          us [unfolded query_def] hdr_lib_def query_def hdr_Pack_def BigEndian_PutUint16_def)
  with u show ?thesis by (simp add: query_def)
qed

section \<open>The recovery boundary\<close>

lemma walk_invokes:
  "walk sd zones st r q qtype off = Some res \<Longrightarrow>
   \<exists>k h. zones k = Some h \<and> res = invoke sd k h st r"
proof (induction sd zones st r q qtype off rule: walk.induct)
  case (1 sd zones st r q qtype off)
  obtain off' e where nl: "NextLabel q off = (off', e)" by (cases "NextLabel q off")
  show ?case
  proof (cases "zones (scratch q off) \<noteq> None \<and> qtype \<noteq> TypeDS")
    case True
    then obtain h where h: "zones (scratch q off) = Some h" by auto
    with True "1.prems" have "res = invoke sd (scratch q off) h st r"
      by (subst (asm) walk.simps) simp
    with h show ?thesis by blast
  next
    case False
    then have z: "(case zones (scratch q off) of
              Some h \<Rightarrow> if qtype \<noteq> TypeDS then Some (invoke sd (scratch q off) h st r)
                        else None
            | None \<Rightarrow> None) = None"
      by (auto split: option.split)
    show ?thesis
    proof (cases e)
      case True
      with z nl "1.prems" show ?thesis by (subst (asm) walk.simps) simp
    next
      case False
      with z nl "1.prems" have "walk sd zones st r q qtype off' = Some res"
        by (subst (asm) walk.simps) simp
      from "1.IH" [OF z nl [symmetric] False this] show ?thesis .
    qed
  qed
qed

lemma invoke_None: "invoke sd k h st r = None \<longleftrightarrow> stack h (W st) r = None"
  by (auto simp: invoke_def split: option.splits prod.splits go.splits)

lemma ServeDNS_body_None:
  assumes "ServeDNS_body sd zones st r = None"
  shows "\<exists>h \<in> ran zones. stack h (W st) r = None"
proof -
  from assms obtain k h where "zones k = Some h" and "invoke sd k h st r = None"
    by (auto simp: ServeDNS_body_def split: option.splits list.splits dest!: walk_invokes)
  then show ?thesis by (auto simp: invoke_None ran_def)
qed

lemma recovered_returns: "\<exists>st'. recovered sd r (Some x) = Some (Ret (), st')"
  by (cases x; cases "fst x")
     (auto simp: recovered_def split: panic_value.splits)

text \<open>
  C8, amended. For every request: a panic of the body of the dispatcher with
  a value other than nil is recovered and answered with server failure, on the
  sink as the panic left it; a panic with the value nil is recovered with
  nothing written. The body panics, with a value other than nil, when the
  request has no question (the dispatch itself), and with the value of the
  chain's panic when the chain it invokes for the first registered candidate
  panics. When every registered chain returns or panics on the request, the
  dispatcher returns.
\<close>

theorem ServeDNS_recovers_panics:
  "(\<forall>v st'. ServeDNS_body SizeAndDo zones st r = Some (Panic (Value v), st') \<longrightarrow>
      ServeDNS SizeAndDo zones st r =
        Some (Ret (),
              st'\<lparr>W := (W st')\<lparr>Sent := Sent (W st')
                                        @ [SizeAndDo r (SetRcode r RcodeServerFailure)]\<rparr>\<rparr>)) \<and>
   (\<forall>st'. ServeDNS_body SizeAndDo zones st r = Some (Panic NilValue, st') \<longrightarrow>
      ServeDNS SizeAndDo zones st r = Some (Ret (), st')) \<and>
   (Edns0Version r = None \<and> Question r = [] \<longrightarrow>
      ServeDNS_body SizeAndDo zones st r = Some (Panic index_out_of_range, st)) \<and>
   (\<forall>qu qs c h v w'.
      Edns0Version r = None \<and> Question r = qu # qs \<and> Qtype qu \<noteq> TypeDS \<and>
      first_match zones (Name qu) = Some c \<and> zones (map lower_byte c) = Some h \<and>
      stack h (W st) r = Some (Panic v, w') \<longrightarrow>
      ServeDNS_body SizeAndDo zones st r =
        Some (Panic v, \<lparr>W = w', Called = Called st @ [map lower_byte c]\<rparr>)) \<and>
   ((\<forall>h \<in> ran zones. stack h (W st) r \<noteq> None) \<longrightarrow>
      (\<exists>st'. ServeDNS SizeAndDo zones st r = Some (Ret (), st')))"
proof (intro conjI allI impI)
  fix v st'
  assume "ServeDNS_body SizeAndDo zones st r = Some (Panic (Value v), st')"
  then show "ServeDNS SizeAndDo zones st r =
        Some (Ret (),
              st'\<lparr>W := (W st')\<lparr>Sent := Sent (W st')
                                        @ [SizeAndDo r (SetRcode r RcodeServerFailure)]\<rparr>\<rparr>)"
    by (simp add: ServeDNS_def recovered_def DefaultErrorFunc_def w_WriteMsg_def)
next
  fix st'
  assume "ServeDNS_body SizeAndDo zones st r = Some (Panic NilValue, st')"
  then show "ServeDNS SizeAndDo zones st r = Some (Ret (), st')"
    by (simp add: ServeDNS_def recovered_def)
next
  assume "Edns0Version r = None \<and> Question r = []"
  then show "ServeDNS_body SizeAndDo zones st r = Some (Panic index_out_of_range, st)"
    by (simp add: ServeDNS_body_def)
next
  fix qu qs c h v w'
  assume a: "Edns0Version r = None \<and> Question r = qu # qs \<and> Qtype qu \<noteq> TypeDS \<and>
      first_match zones (Name qu) = Some c \<and> zones (map lower_byte c) = Some h \<and>
      stack h (W st) r = Some (Panic v, w')"
  then have "ServeDNS_body SizeAndDo zones st r = invoke SizeAndDo (map lower_byte c) h st r"
    by (intro ServeDNS_body_routed) auto
  with a show "ServeDNS_body SizeAndDo zones st r =
        Some (Panic v, \<lparr>W = w', Called = Called st @ [map lower_byte c]\<rparr>)"
    by (simp add: invoke_def)
next
  assume "\<forall>h \<in> ran zones. stack h (W st) r \<noteq> None"
  with ServeDNS_body_None [of SizeAndDo zones st r]
  obtain x where "ServeDNS_body SizeAndDo zones st r = Some x"
    by (cases "ServeDNS_body SizeAndDo zones st r") auto
  with recovered_returns [of SizeAndDo r x]
  show "\<exists>st'. ServeDNS SizeAndDo zones st r = Some (Ret (), st')"
    by (simp add: ServeDNS_def)
qed

theorem ServeDNS_recovers_panics_witness:
  "ServeDNS plain (faulty_zone (Value ''fault'')) start (query ''www.example.org.'' 1) =
     Some (Ret (),
           \<lparr>W = client\<lparr>Sent := [SetRcode (query ''www.example.org.'' 1) RcodeServerFailure]\<rparr>,
            Called = [''example.org.'']\<rparr>)"
proof -
  let ?r = "query ''www.example.org.'' 1"
  let ?qu = "\<lparr>Name = ''www.example.org.'', Qtype = 1, Qclass = 1\<rparr>"
  let ?z = "faulty_zone (Value ''fault'')"
  let ?h = "\<lparr>stack = panicking (Value ''fault'')\<rparr>"
  have s: "suffixes ''www.example.org.'' = [''www.example.org.'', ''example.org.'', ''org.'']"
    by code_simp
  have l: "map lower_byte ''www.example.org.'' = ''www.example.org.''"
    "map lower_byte ''example.org.'' = ''example.org.''"
    by code_simp+
  have fm: "first_match ?z (Name ?qu) = Some ''example.org.''"
    using l by (simp add: first_match_def s faulty_zone_def del: list.map)
  have pre: "Edns0Version ?r = None \<and> Question ?r = ?qu # [] \<and> Qtype ?qu \<noteq> TypeDS \<and>
      first_match ?z (Name ?qu) = Some ''example.org.'' \<and>
      ?z (map lower_byte ''example.org.'') = Some ?h \<and>
      stack ?h (W start) ?r = Some (Panic (Value ''fault''), client)"
    using l fm
    by (simp add: Edns0Version_def query_def TypeDS_def faulty_zone_def panicking_def start_def
          del: list.map)
  note t = ServeDNS_recovers_panics [of plain ?z start ?r]
  from t pre have b: "ServeDNS_body plain ?z start ?r =
      Some (Panic (Value ''fault''),
            \<lparr>W = client, Called = Called start @ [map lower_byte ''example.org.'']\<rparr>)"
    by blast
  with t have "ServeDNS plain ?z start ?r =
        Some (Ret (),
         \<lparr>W = client, Called = Called start @ [map lower_byte ''example.org.'']\<rparr>
           \<lparr>W := (W \<lparr>W = client, Called = Called start @ [map lower_byte ''example.org.'']\<rparr>)
              \<lparr>Sent := Sent (W \<lparr>W = client, Called = Called start @ [map lower_byte ''example.org.'']\<rparr>)
                  @ [plain ?r (SetRcode ?r RcodeServerFailure)]\<rparr>\<rparr>)"
    by blast
  then show ?thesis using l by (simp add: start_def client_def plain_def del: list.map)
qed

text \<open>
  With pools from the two constructors every connection is a datagram one, and
  the exchange of the proxy client does not return once the request is written.
\<close>

lemma Client_ServeDNS_both_pools_diverges:
  assumes "Question r = qu # qs" and "Pack lib r = Inr out"
  shows "Client_ServeDNS lib w r (both_pools addr) upstream = None"
proof -
  let ?c = "\<lparr>ctype = UDPConn, raddr = addr, inbox = upstream, wfail = None, outbox = []\<rparr>"
  have co: "(if Proto w = ''tcp'' then Get (TCPPool (both_pools addr)) upstream
             else Get (UDPPool (both_pools addr)) upstream) = Some ?c"
    by (simp add: both_pools_def Get_def NewTCPPool_def NewUDPPool_def NewChannelPool_def
          DialTimeout_def)
  have "exchange lib r (Some ?c) us = None" for us
    using assms(2)
    by (simp add: exchange_def WriteMsg_unframed ReadMsg_datagram_diverges)
  with assms(1) have "Exchange lib r (Some ?c) = None"
    by (simp add: Exchange_def group_Do_def)
  with co show ?thesis unfolding Client_ServeDNS_def Let_def by simp
qed

text \<open>
  As stated, C8 fails twice. A chain that forwards with the proxy client over
  a datagram connection does not return (\<^verbatim>\<open>Read\<close> calls itself until the stack
  overflows, which is no panic and ends the process), and neither does the
  dispatcher. And a chain that panics with the value nil is recovered, but no
  answer is written.
\<close>

theorem not_every_fault_is_answered:
  "ServeDNS plain forwarding_zone start (query ''www.example.org.'' 1) = None \<and>
   ServeDNS plain (faulty_zone NilValue) start (query ''www.example.org.'' 1) =
     Some (Ret (), \<lparr>W = client, Called = [''example.org.'']\<rparr>)"
proof -
  let ?r = "query ''www.example.org.'' 1"
  let ?qu = "\<lparr>Name = ''www.example.org.'', Qtype = 1, Qclass = 1\<rparr>"
  have s: "suffixes ''www.example.org.'' = [''www.example.org.'', ''example.org.'', ''org.'']"
    by code_simp
  have l: "map lower_byte ''www.example.org.'' = ''www.example.org.''"
    "map lower_byte ''example.org.'' = ''example.org.''"
    by code_simp+
  have e: "Edns0Version ?r = None" and q: "Question ?r = ?qu # []" and t: "Qtype ?qu \<noteq> TypeDS"
    by (simp_all add: Edns0Version_def query_def TypeDS_def)
  let ?p = "\<lparr>stack = proxying hdr_lib (both_pools ''192.0.2.53:53'')
                   [Data [0, 7, 0x80, 0, 0, 0, 0, 0, 0, 0, 0, 0]]\<rparr>"
  have "first_match forwarding_zone (Name ?qu) = Some ''example.org.''"
    using l by (simp add: first_match_def s forwarding_zone_def del: list.map)
  moreover have "forwarding_zone (map lower_byte ''example.org.'') = Some ?p"
    using l by (simp add: forwarding_zone_def del: list.map)
  ultimately have "ServeDNS_body plain forwarding_zone start ?r =
      invoke plain (map lower_byte ''example.org.'') ?p start ?r"
    by (rule ServeDNS_body_routed [OF e q t])
  moreover have "Client_ServeDNS hdr_lib w ?r (both_pools ''192.0.2.53:53'') up = None" for w up
    by (rule Client_ServeDNS_both_pools_diverges [OF q])
       (simp add: hdr_lib_def hdr_Pack_def)
  ultimately have 1: "ServeDNS plain forwarding_zone start ?r = None"
    by (simp add: ServeDNS_def recovered_def invoke_def proxying_def)
  let ?n = "\<lparr>stack = panicking NilValue\<rparr>"
  have "first_match (faulty_zone NilValue) (Name ?qu) = Some ''example.org.''"
    using l by (simp add: first_match_def s faulty_zone_def del: list.map)
  moreover have "faulty_zone NilValue (map lower_byte ''example.org.'') = Some ?n"
    using l by (simp add: faulty_zone_def del: list.map)
  ultimately have "ServeDNS_body plain (faulty_zone NilValue) start ?r =
      invoke plain (map lower_byte ''example.org.'') ?n start ?r"
    by (rule ServeDNS_body_routed [OF e q t])
  then have 2: "ServeDNS plain (faulty_zone NilValue) start ?r =
     Some (Ret (), \<lparr>W = client, Called = [''example.org.'']\<rparr>)"
    using l
    by (simp add: ServeDNS_def recovered_def invoke_def panicking_def start_def del: list.map)
  from 1 2 show ?thesis by simp
qed

end
